theory Spec2Isabelle
  imports Main "HOL-Library.Finite_Map" "HOL-Library.Multiset"
begin

section \<open>Resource model (package core)\<close>

text \<open>
  Go maps are finite, so every \<open>map[K]V\<close> of the source is a finite map
  \<open>(K, V) fmap\<close>. A read of a missing key gives the zero value of \<open>V\<close>; each
  such read is written out where the source relies on it. The order in which
  \<open>for k := range m\<close> visits the keys of a map is not fixed by Go: every function
  that ranges over a map takes the order of that visit as an argument, and
  \<open>rangeOrder m ks\<close> says that \<open>ks\<close> is one of the orders the loop may take.
\<close>

type_synonym ResourceID = string
type_synonym Layer = int
type_synonym Time = nat

datatype EdgeType = EdgeDependsOn | EdgeConfigures | EdgeMonitors | EdgeTriggers

datatype StateStatus =
  StatePending | StateApplied | StateFailed | StateDrifted | StateSkipped | StateUnknown

text \<open>
  \<open>ActionType\<close> is a string type: \<open>ActionOther\<close> is any string other than the four
  constants.
\<close>

datatype ActionType = ActionCreate | ActionUpdate | ActionDelete | ActionNoOp | ActionOther string

text \<open>
  The values of type \<open>interface{}\<close> that the core stores in a metadata map: a
  configuration (the resource's \<open>map[string]interface{}\<close>, of type \<open>'c\<close>) or a text.
\<close>

datatype 'c Value = ConfigValue 'c | TextValue string

record Dependency =
  Target :: ResourceID
  EdgeKind :: EdgeType
  Required :: bool

record 'c ResourceState =
  Status :: StateStatus
  LastApplied :: Time
  Checksum :: string
  Metadata :: "(string, 'c Value) fmap"

text \<open>
  The concrete resource types all embed \<open>BaseResource\<close> and keep its getters; they
  differ in \<open>Apply\<close> and \<open>Destroy\<close>, which dispatch on the dynamic type, here \<open>Kind\<close>.
\<close>

record Package =
  Name :: string
  Version :: string
  Manager :: string

datatype Kind = BaseKind | HostKind | PackageKind Package | ServiceKind | FileKind

record 'c Resource =
  ID :: ResourceID
  Type :: string
  Layer :: Layer
  Dependencies :: "Dependency list"
  State :: "'c ResourceState"
  Config :: 'c
  Kind :: Kind

text \<open>
  The errors of the source, one constructor for each \<open>fmt.Errorf\<close> site that starts an
  error; \<open>Wrap\<close> and \<open>InResource\<close> are the sites that wrap another error with \<open>%w\<close>.
  \<open>JSONError\<close> is an error of \<open>encoding/json\<close>, \<open>Message\<close> an error known by its text only.
  \<open>Panic\<close> is a run-time panic: it is not a returned error and passes through every
  wrapping site unchanged (\<open>wrap\<close>, \<open>inResource\<close>).
\<close>

datatype error =
    ResourceIDRequired
  | ResourceTypeRequired
  | CircularDependency
  | NonExistentResource ResourceID ResourceID
  | LayerViolation string string
  | ResourceNotFoundInGraph ResourceID
  | ResourceNotFound ResourceID
  | JSONError
  | MkdirFailed string
  | WriteFailed string
  | Message string
  | AllInstallationsFailed string
  | AllRemovalsFailed string
  | InResource ResourceID error
  | Wrap string error
  | Panic string

definition wrap :: "string \<Rightarrow> error \<Rightarrow> error" where
  "wrap context err = (case err of Panic p \<Rightarrow> Panic p | _ \<Rightarrow> Wrap context err)"

definition inResource :: "ResourceID \<Rightarrow> error \<Rightarrow> error" where
  "inResource rid err = (case err of Panic p \<Rightarrow> Panic p | _ \<Rightarrow> InResource rid err)"

definition rangeOrder :: "('k, 'v) fmap \<Rightarrow> 'k list \<Rightarrow> bool" where
  "rangeOrder m ks \<longleftrightarrow> distinct ks \<and> set ks = fmdom' m"

definition len :: "('k, 'v) fmap \<Rightarrow> nat" where
  "len m = card (fmdom' m)"

definition Validate :: "'c Resource \<Rightarrow> error option" where
  "Validate r =
     (if ID r = [] then Some ResourceIDRequired
      else if Type r = [] then Some ResourceTypeRequired
      else None)"

text \<open>
  \<open>Layer.String\<close>: the name of the layer, \<open>unknown\<close> from 6 upwards; below 0 the index
  \<open>layers[l]\<close> is out of range and the call panics (\<open>None\<close>).
\<close>

definition layers :: "string list" where
  "layers = [''foundation'', ''platform'', ''infrastructure'', ''application'',
             ''configuration'', ''runtime'']"

definition layerString :: "Layer \<Rightarrow> string option" where
  "layerString l =
     (if l \<ge> int (length layers) then Some ''unknown''
      else if l < 0 then None
      else Some (layers ! nat l))"

definition ValidateLayerDependency :: "Layer \<Rightarrow> Layer \<Rightarrow> error option" where
  "ValidateLayerDependency from to =
     (if from < to then
        (case layerString from of
           None \<Rightarrow> Some (Panic ''index out of range'')
         | Some f \<Rightarrow>
             (case layerString to of
                None \<Rightarrow> Some (Panic ''index out of range'')
              | Some t \<Rightarrow> Some (LayerViolation f t)))
      else None)"

section \<open>Dependency graph (core/graph.go)\<close>

record 'c Graph =
  nodes :: "(ResourceID, 'c Resource) fmap"
  edges :: "(ResourceID, Dependency list) fmap"

definition NewGraph :: "'c Graph" where
  "NewGraph = \<lparr>nodes = fmempty, edges = fmempty\<rparr>"

definition AddResource :: "'c Resource \<Rightarrow> 'c Graph \<Rightarrow> error + 'c Graph" where
  "AddResource resource g =
     (case Validate resource of
        Some err \<Rightarrow> Inl (wrap (''invalid resource '' @ ID resource) err)
      | None \<Rightarrow>
          Inr \<lparr>nodes = fmupd (ID resource) resource (nodes g),
               edges = fmupd (ID resource) (Dependencies resource) (edges g)\<rparr>)"

definition GetResource :: "'c Graph \<Rightarrow> ResourceID \<Rightarrow> 'c Resource option" where
  "GetResource g rid = fmlookup (nodes g) rid"

text \<open>\<open>g.edges[id]\<close>: the nil slice when \<open>id\<close> is not a key.\<close>

definition edgesOf :: "'c Graph \<Rightarrow> ResourceID \<Rightarrow> Dependency list" where
  "edgesOf g rid = (case fmlookup (edges g) rid of None \<Rightarrow> [] | Some deps \<Rightarrow> deps)"

definition RemoveResource :: "ResourceID \<Rightarrow> 'c Graph \<Rightarrow> 'c Graph" where
  "RemoveResource rid g =
     \<lparr>nodes = fmdrop rid (nodes g),
      edges = fmmap (filter (\<lambda>dep. Target dep \<noteq> rid)) (fmdrop rid (edges g))\<rparr>"

subsection \<open>TopologicalSort\<close>

text \<open>
  \<open>inDegree\<close> is a \<open>map[ResourceID]int\<close>; \<open>inDegree[k]\<close> reads 0 at a missing key, and
  \<open>inDegree[k]++\<close> and \<open>inDegree[k]--\<close> create the key. A counter is bounded by the
  number of edges held in memory, so the 64-bit \<open>int\<close> never wraps and is an \<open>int\<close> here.
\<close>

type_synonym InDegree = "(ResourceID, int) fmap"

definition degreeOf :: "InDegree \<Rightarrow> ResourceID \<Rightarrow> int" where
  "degreeOf m k = (case fmlookup m k of None \<Rightarrow> 0 | Some d \<Rightarrow> d)"

text \<open>First loop: \<open>for id := range g.nodes { inDegree[id] = 0 }\<close>.\<close>

definition initInDegree :: "ResourceID list \<Rightarrow> InDegree" where
  "initInDegree ks = fold (\<lambda>k m. fmupd k 0 m) ks fmempty"

text \<open>Second loop: every required edge increments the counter of its target.\<close>

definition countDep :: "Dependency \<Rightarrow> InDegree \<Rightarrow> InDegree" where
  "countDep dep m =
     (if Required dep then fmupd (Target dep) (degreeOf m (Target dep) + 1) m else m)"

definition countIncoming :: "'c Graph \<Rightarrow> ResourceID list \<Rightarrow> InDegree \<Rightarrow> InDegree" where
  "countIncoming g ks m = fold (\<lambda>k. fold countDep (edgesOf g k)) ks m"

text \<open>Third loop: the keys of \<open>inDegree\<close> whose counter is 0, in the order of the visit.\<close>

definition zeroDegree :: "InDegree \<Rightarrow> ResourceID list \<Rightarrow> ResourceID list" where
  "zeroDegree m ks = filter (\<lambda>k. degreeOf m k = 0) ks"

text \<open>The body of the inner loop over \<open>g.edges[current]\<close>.\<close>

fun releaseDep :: "Dependency \<Rightarrow> InDegree \<times> ResourceID list \<Rightarrow> InDegree \<times> ResourceID list" where
  "releaseDep dep (m, queue) =
     (if Required dep then
        (let d = degreeOf m (Target dep) - 1 in
         (fmupd (Target dep) d m, if d = 0 then queue @ [Target dep] else queue))
      else (m, queue))"

declare releaseDep.simps [simp del]

definition positive :: "InDegree \<Rightarrow> nat" where
  "positive m = card {k \<in> fmdom' m. 0 < degreeOf m k}"

lemma degreeOf_fmupd [simp]:
  "degreeOf (fmupd t d m) k = (if k = t then d else degreeOf m k)"
  by (simp add: degreeOf_def)

lemma degreeOf_nonzero_dom: "degreeOf m k \<noteq> 0 \<Longrightarrow> k \<in> fmdom' m"
  by (auto simp: degreeOf_def fmlookup_dom'_iff split: option.splits)

lemma releaseDep_measure:
  "releaseDep dep (m, q) = (m', q') \<Longrightarrow> length q' + positive m' \<le> length q + positive m"
proof (cases "Required dep")
  case False
  assume "releaseDep dep (m, q) = (m', q')"
  with False show ?thesis by (simp add: releaseDep.simps)
next
  case True
  assume r: "releaseDep dep (m, q) = (m', q')"
  define t where "t = Target dep"
  define d where "d = degreeOf m t - 1"
  have m': "m' = fmupd t d m" and q': "q' = (if d = 0 then q @ [t] else q)"
    using r True by (auto simp: releaseDep.simps Let_def t_def d_def)
  have deg': "degreeOf m' k = (if k = t then d else degreeOf m k)" for k
    by (simp add: m')
  have fin: "finite {k \<in> fmdom' m. 0 < degreeOf m k}" by simp
  show ?thesis
  proof (cases "d = 0")
    case True
    then have one: "degreeOf m t = 1" by (simp add: d_def)
    then have tin: "t \<in> fmdom' m"
      using degreeOf_nonzero_dom [of m t] by simp
    have "{k \<in> fmdom' m'. 0 < degreeOf m' k} = {k \<in> fmdom' m. 0 < degreeOf m k} - {t}"
      using True tin by (auto simp: m')
    moreover have "t \<in> {k \<in> fmdom' m. 0 < degreeOf m k}" using tin one by simp
    ultimately have "Suc (positive m') = positive m"
      unfolding positive_def using fin
      by (metis (no_types, lifting) card_Suc_Diff1)
    with True show ?thesis by (simp add: q')
  next
    case False
    have "{k \<in> fmdom' m'. 0 < degreeOf m' k} \<subseteq> {k \<in> fmdom' m. 0 < degreeOf m k}"
    proof
      fix k assume k: "k \<in> {k \<in> fmdom' m'. 0 < degreeOf m' k}"
      show "k \<in> {k \<in> fmdom' m. 0 < degreeOf m k}"
      proof (cases "k = t")
        case True
        with k have "0 < d" by (simp add: deg')
        then have "0 < degreeOf m t" by (simp add: d_def)
        then show ?thesis using True degreeOf_nonzero_dom [of m t] by simp
      next
        case False
        with k show ?thesis by (simp add: m')
      qed
    qed
    then have "positive m' \<le> positive m"
      unfolding positive_def using fin by (meson card_mono)
    with False show ?thesis by (simp add: q')
  qed
qed

lemma releaseDeps_measure:
  "fold releaseDep deps (m, q) = (m', q') \<Longrightarrow> length q' + positive m' \<le> length q + positive m"
proof (induction deps arbitrary: m q)
  case Nil
  then show ?case by simp
next
  case (Cons dep deps)
  obtain m1 q1 where s: "releaseDep dep (m, q) = (m1, q1)" by (cases "releaseDep dep (m, q)")
  from Cons.prems have "fold releaseDep deps (m1, q1) = (m', q')" by (simp add: s)
  from Cons.IH [OF this] releaseDep_measure [OF s] show ?case by linarith
qed

text \<open>
  The main loop \<open>for len(queue) > 0\<close>: take the head of the queue, append it to the
  result, release its required edges.
\<close>

function kahnLoop ::
  "'c Graph \<Rightarrow> InDegree \<Rightarrow> ResourceID list \<Rightarrow> ResourceID list \<Rightarrow> ResourceID list" where
  "kahnLoop g m [] result = result"
| "kahnLoop g m (current # queue) result =
     (case fold releaseDep (edgesOf g current) (m, queue) of
        (m', queue') \<Rightarrow> kahnLoop g m' queue' (result @ [current]))"
  by pat_completeness auto
termination
  apply (relation "measure (\<lambda>(g, m, queue, result). length queue + positive m)")
   apply simp
  apply (auto dest!: releaseDeps_measure [OF sym])
  done

text \<open>The three visits of a map that one call of \<open>TopologicalSort\<close> makes.\<close>

record Sched =
  nodeOrder :: "ResourceID list"
  edgeOrder :: "ResourceID list"
  degreeOrder :: "ResourceID list"

definition inDegreeOf :: "Sched \<Rightarrow> 'c Graph \<Rightarrow> InDegree" where
  "inDegreeOf sc g = countIncoming g (edgeOrder sc) (initInDegree (nodeOrder sc))"

definition validSched :: "Sched \<Rightarrow> 'c Graph \<Rightarrow> bool" where
  "validSched sc g \<longleftrightarrow>
     rangeOrder (nodes g) (nodeOrder sc) \<and> rangeOrder (edges g) (edgeOrder sc) \<and>
     rangeOrder (inDegreeOf sc g) (degreeOrder sc)"

definition TopologicalSort :: "Sched \<Rightarrow> 'c Graph \<Rightarrow> error + ResourceID list" where
  "TopologicalSort sc g =
     (let inDegree = inDegreeOf sc g;
          queue = zeroDegree inDegree (degreeOrder sc);
          result = kahnLoop g inDegree queue []
      in if length result \<noteq> len (nodes g) then Inl CircularDependency else Inr result)"

subsection \<open>ValidateDependencies\<close>

text \<open>The inner loop over \<open>g.edges[id]\<close>, up to the first violation.\<close>

fun checkDeps :: "'c Graph \<Rightarrow> ResourceID \<Rightarrow> Layer \<Rightarrow> Dependency list \<Rightarrow> error option" where
  "checkDeps g rid fromLayer [] = None"
| "checkDeps g rid fromLayer (dep # deps) =
     (if Required dep then
        (case fmlookup (nodes g) (Target dep) of
           None \<Rightarrow> Some (NonExistentResource rid (Target dep))
         | Some targetResource \<Rightarrow>
             (case ValidateLayerDependency fromLayer (Layer targetResource) of
                Some err \<Rightarrow> Some (inResource rid err)
              | None \<Rightarrow> checkDeps g rid fromLayer deps))
      else checkDeps g rid fromLayer deps)"

text \<open>The outer loop \<open>for id, resource := range g.nodes\<close>, in the order of the visit.\<close>

fun checkNodes :: "'c Graph \<Rightarrow> ResourceID list \<Rightarrow> error option" where
  "checkNodes g [] = None"
| "checkNodes g (rid # ks) =
     (case fmlookup (nodes g) rid of
        None \<Rightarrow> checkNodes g ks
      | Some resource \<Rightarrow>
          (case checkDeps g rid (Layer resource) (edgesOf g rid) of
             Some err \<Rightarrow> Some err
           | None \<Rightarrow> checkNodes g ks))"

definition ValidateDependencies :: "Sched \<Rightarrow> ResourceID list \<Rightarrow> 'c Graph \<Rightarrow> error option" where
  "ValidateDependencies sc ks g =
     (case TopologicalSort sc g of
        Inl err \<Rightarrow> Some err
      | Inr _ \<Rightarrow> checkNodes g ks)"

definition GetDependencies :: "'c Graph \<Rightarrow> ResourceID \<Rightarrow> Dependency list" where
  "GetDependencies g rid = edgesOf g rid"

section \<open>State store (core/state.go)\<close>

text \<open>
  \<open>json.Marshal\<close> belongs to the standard library: it is the parameter \<open>marshal\<close>,
  \<open>None\<close> where it returns an error. The state file holds the document that
  \<open>json.MarshalIndent(s.state)\<close> writes, kept here as the mapping itself; marshalling the
  mapping fails when marshalling one of its metadata values does. \<open>mkdirError\<close> and
  \<open>writeError\<close> are what the operating system answers to \<open>os.MkdirAll\<close> and
  \<open>os.WriteFile\<close>; a failed write is taken to leave the file as it was. \<open>writes\<close>
  counts the completed calls of \<open>os.WriteFile\<close>.

  The map \<open>s.state\<close> holds pointers; every entry the code stores is non-nil, and an
  entry is its \<open>ResourceState\<close> here. \<open>MarkApplied\<close> stores the configuration map of
  the resource itself as the snapshot; the snapshot is its value here, which is the same
  as long as no one updates that map in place, and no code of the repository does.
  \<open>LoadState\<close>, which decodes the file, is not part of the model.
\<close>

type_synonym 'c Marshal = "'c Value \<Rightarrow> string option"

type_synonym 'c StateMap = "(ResourceID, 'c ResourceState) fmap"

record 'c Disk =
  content :: "'c StateMap option"
  mkdirError :: "string option"
  writeError :: "string option"
  writes :: nat

record 'c StateManager =
  stateFile :: string
  state :: "'c StateMap"
  graph :: "'c Graph"

text \<open>
  What a call can change: the state manager, the disk, and the clock. \<open>time.Now\<close>
  reads the clock, which moves on by one tick at every read.
\<close>

record 'c World =
  manager :: "'c StateManager"
  disk :: "'c Disk"
  clock :: Time

definition timeNow :: "'c World \<Rightarrow> Time \<times> 'c World" where
  "timeNow w = (clock w, w\<lparr>clock := Suc (clock w)\<rparr>)"

definition NewStateManager :: "string \<Rightarrow> 'c Graph \<Rightarrow> 'c StateManager" where
  "NewStateManager path g = \<lparr>stateFile = path, state = fmempty, graph = g\<rparr>"

definition marshalable :: "'c Marshal \<Rightarrow> 'c StateMap \<Rightarrow> bool" where
  "marshalable marshal st \<longleftrightarrow>
     fmpred (\<lambda>_ rs. fmpred (\<lambda>_ v. marshal v \<noteq> None) (Metadata rs)) st"

definition SaveState :: "'c Marshal \<Rightarrow> 'c World \<Rightarrow> error option \<times> 'c World" where
  "SaveState marshal w =
     (case mkdirError (disk w) of
        Some e \<Rightarrow> (Some (Wrap ''failed to create state directory'' (MkdirFailed e)), w)
      | None \<Rightarrow>
          if \<not> marshalable marshal (state (manager w))
          then (Some (Wrap ''failed to marshal state'' JSONError), w)
          else
            (case writeError (disk w) of
               Some e \<Rightarrow> (Some (Wrap ''failed to write state file'' (WriteFailed e)), w)
             | None \<Rightarrow>
                 (None, w\<lparr>disk := (disk w)\<lparr>content := Some (state (manager w)),
                                            writes := Suc (writes (disk w))\<rparr>\<rparr>)))"

definition GetState :: "'c StateManager \<Rightarrow> ResourceID \<Rightarrow> 'c ResourceState option" where
  "GetState s rid = fmlookup (state s) rid"

definition SetState :: "ResourceID \<Rightarrow> 'c ResourceState \<Rightarrow> 'c StateManager \<Rightarrow> 'c StateManager" where
  "SetState rid st s = s\<lparr>state := fmupd rid st (state s)\<rparr>"


definition DetectDrift :: "'c Marshal \<Rightarrow> 'c StateManager \<Rightarrow> 'c Resource \<Rightarrow> error + bool" where
  "DetectDrift marshal s resource =
     (case GetState s (ID resource) of
        None \<Rightarrow> Inr True
      | Some currentState \<Rightarrow>
          (case fmlookup (Metadata currentState) ''config'' of
             None \<Rightarrow> Inr True
           | Some lastConfig \<Rightarrow>
               (case marshal (ConfigValue (Config resource)) of
                  None \<Rightarrow> Inl (Wrap ''failed to marshal current config'' JSONError)
                | Some configBytes \<Rightarrow>
                    (case marshal lastConfig of
                       None \<Rightarrow> Inl (Wrap ''failed to marshal last config'' JSONError)
                     | Some lastConfigBytes \<Rightarrow> Inr (configBytes \<noteq> lastConfigBytes)))))"

definition MarkApplied :: "'c Marshal \<Rightarrow> 'c Resource \<Rightarrow> 'c World \<Rightarrow> error option \<times> 'c World" where
  "MarkApplied marshal resource w =
     (case marshal (ConfigValue (Config resource)) of
        None \<Rightarrow> (Some (Wrap ''failed to marshal config'' JSONError), w)
      | Some configBytes \<Rightarrow>
          (case timeNow w of
             (t, w1) \<Rightarrow>
               SaveState marshal
                 (w1\<lparr>manager := SetState (ID resource)
                      \<lparr>Status = StateApplied, LastApplied = t, Checksum = configBytes,
                       Metadata = fmupd ''config'' (ConfigValue (Config resource)) fmempty\<rparr>
                      (manager w1)\<rparr>)))"

definition MarkFailed :: "'c Marshal \<Rightarrow> 'c Resource \<Rightarrow> string \<Rightarrow> 'c World \<Rightarrow> error option \<times> 'c World" where
  "MarkFailed marshal resource errorMsg w =
     (case timeNow w of
        (t, w1) \<Rightarrow>
          SaveState marshal
            (w1\<lparr>manager := SetState (ID resource)
                 \<lparr>Status = StateFailed, LastApplied = t, Checksum = [],
                  Metadata = fmupd ''error'' (TextValue errorMsg) fmempty\<rparr>
                 (manager w1)\<rparr>))"





section \<open>Planner (core/planner.go)\<close>

record 'c Change =
  Field :: string
  OldValue :: "'c Value"
  NewValue :: "'c Value"

record 'c Action =
  ResourceID :: ResourceID
  ActType :: ActionType
  Changes :: "'c Change list"
  ActMetadata :: "(string, 'c Value) fmap"

record 'c Plan =
  Actions :: "'c Action list"
  CreatedAt :: Time
  PlanGraph :: "'c Graph"

record 'c Planner =
  plannerGraph :: "'c Graph"
  stateManager :: "'c StateManager"

definition reason :: "string \<Rightarrow> (string, 'c Value) fmap" where
  "reason text = fmupd ''reason'' (TextValue text) fmempty"

definition planResource :: "'c Marshal \<Rightarrow> 'c Planner \<Rightarrow> 'c Resource \<Rightarrow> error + 'c Action" where
  "planResource marshal p resource =
     (case GetState (stateManager p) (ID resource) of
        None \<Rightarrow>
          Inr \<lparr>ResourceID = ID resource, ActType = ActionCreate, Changes = [],
               ActMetadata = reason ''resource not in state''\<rparr>
      | Some currentState \<Rightarrow>
          (case DetectDrift marshal (stateManager p) resource of
             Inl err \<Rightarrow> Inl (wrap ''failed to detect drift'' err)
           | Inr drifted \<Rightarrow>
               if drifted then
                 Inr \<lparr>ResourceID = ID resource, ActType = ActionUpdate, Changes = [],
                      ActMetadata = reason ''configuration drift detected''\<rparr>
               else
                 Inr \<lparr>ResourceID = ID resource, ActType = ActionNoOp, Changes = [],
                      ActMetadata = reason ''resource up to date''\<rparr>))"

text \<open>The loop of \<open>Plan\<close> over \<open>resourceOrder\<close>; the first error ends it.\<close>

fun planActions ::
  "'c Marshal \<Rightarrow> 'c Planner \<Rightarrow> ResourceID list \<Rightarrow> 'c Action list \<Rightarrow> error + 'c Action list" where
  "planActions marshal p [] actions = Inr actions"
| "planActions marshal p (resourceID # rest) actions =
     (case GetResource (plannerGraph p) resourceID of
        None \<Rightarrow> Inl (ResourceNotFoundInGraph resourceID)
      | Some resource \<Rightarrow>
          (case planResource marshal p resource of
             Inl err \<Rightarrow> Inl (wrap (''failed to plan resource '' @ resourceID) err)
           | Inr action \<Rightarrow> planActions marshal p rest (actions @ [action])))"

definition Plan :: "'c Marshal \<Rightarrow> Sched \<Rightarrow> Time \<Rightarrow> 'c Planner \<Rightarrow> error + 'c Plan" where
  "Plan marshal sc now p =
     (case TopologicalSort sc (plannerGraph p) of
        Inl err \<Rightarrow> Inl (wrap ''failed to sort resources'' err)
      | Inr resourceOrder \<Rightarrow>
          (case planActions marshal p resourceOrder [] of
             Inl err \<Rightarrow> Inl err
           | Inr actions \<Rightarrow>
               Inr \<lparr>Actions = actions, CreatedAt = now, PlanGraph = plannerGraph p\<rparr>))"

text \<open>
  \<open>ValidatePlan\<close> sorts the graph, then \<open>ValidateDependencies\<close> sorts it again and
  ranges over the nodes: two visits of \<open>TopologicalSort\<close> and one of the node map.
\<close>

record ValidateSched =
  firstSort :: Sched
  secondSort :: Sched
  layerOrder :: "ResourceID list"

definition ValidatePlan :: "ValidateSched \<Rightarrow> 'c Plan \<Rightarrow> error option" where
  "ValidatePlan vs plan =
     (case TopologicalSort (firstSort vs) (PlanGraph plan) of
        Inl err \<Rightarrow> Some (wrap ''plan validation failed'' err)
      | Inr _ \<Rightarrow>
          (case ValidateDependencies (secondSort vs) (layerOrder vs) (PlanGraph plan) of
             Some err \<Rightarrow> Some (wrap ''plan validation failed'' err)
           | None \<Rightarrow> None))"

definition GetActionCount :: "'c Plan \<Rightarrow> ActionType \<Rightarrow> nat" where
  "GetActionCount plan actionType = length (filter (\<lambda>a. ActType a = actionType) (Actions plan))"

definition GetActionsByType :: "'c Plan \<Rightarrow> ActionType \<Rightarrow> 'c Action list" where
  "GetActionsByType plan actionType = filter (\<lambda>a. ActType a = actionType) (Actions plan)"

section \<open>Executor\<close>

text \<open>
  \<open>Apply\<close> and \<open>Destroy\<close> of the resource types. What a host or an apt package
  resource does goes over SSH to a remote machine: its outcome (\<open>None\<close> for a nil error,
  else the text of the error) is given by the transport. The other branches are decided
  by the code alone.
\<close>

record 'c Transport =
  applyRemote :: "'c Resource \<Rightarrow> string option"
  destroyRemote :: "'c Resource \<Rightarrow> string option"

definition Apply :: "'c Transport \<Rightarrow> 'c Resource \<Rightarrow> string option" where
  "Apply tr r =
     (case Kind r of
        BaseKind \<Rightarrow> Some (''Apply not implemented for resource type '' @ Type r)
      | HostKind \<Rightarrow> applyRemote tr r
      | PackageKind pkg \<Rightarrow>
          if Manager pkg = ''apt'' then applyRemote tr r
          else Some (''unsupported package manager: '' @ Manager pkg)
      | ServiceKind \<Rightarrow> Some ''service management not yet implemented''
      | FileKind \<Rightarrow> Some ''file management not yet implemented'')"

definition Destroy :: "'c Transport \<Rightarrow> 'c Resource \<Rightarrow> string option" where
  "Destroy tr r =
     (case Kind r of
        BaseKind \<Rightarrow> Some (''Destroy not implemented for resource type '' @ Type r)
      | HostKind \<Rightarrow> None
      | PackageKind pkg \<Rightarrow>
          if Manager pkg = ''apt'' then destroyRemote tr r
          else Some (''unsupported package manager: '' @ Manager pkg)
      | ServiceKind \<Rightarrow> Some ''service destruction not yet implemented''
      | FileKind \<Rightarrow> Some ''file removal not yet implemented'')"

record 'c Executor =
  executorGraph :: "'c Graph"

record 'c ExecutionAction =
  Action :: "'c Action"
  StartedAt :: Time
  CompletedAt :: "Time option"
  FailedAt :: "Time option"
  Error :: "error option"

record 'c ExecutionResult =
  ResultPlan :: "'c Plan"
  ResultStartedAt :: Time
  ResultCompletedAt :: "Time option"
  ResultFailedAt :: "Time option"
  Success :: bool
  ResultError :: "error option"
  ResultActions :: "'c ExecutionAction list"

text \<open>
  \<open>executeAction\<close> returns the pair \<open>(execAction, err)\<close>. The executor's state manager
  is the one of the world. \<open>settle\<close> is the part of \<open>executeAction\<close> after the
  \<open>switch\<close>, where \<open>err\<close> holds the outcome of the call; the error \<open>MarkFailed\<close>
  returns is dropped, as in the source.
\<close>

definition settle ::
  "'c Marshal \<Rightarrow> 'c Resource \<Rightarrow> 'c ExecutionAction \<Rightarrow> string option \<Rightarrow> 'c World
     \<Rightarrow> ('c ExecutionAction \<times> error option) \<times> 'c World" where
  "settle marshal resource execAction err w =
     (case err of
        Some msg \<Rightarrow>
          (case timeNow w of
             (t, w1) \<Rightarrow>
               (case MarkFailed marshal resource msg w1 of
                  (_, w2) \<Rightarrow>
                    ((execAction\<lparr>FailedAt := Some t, Error := Some (Message msg)\<rparr>,
                      Some (Wrap ''action failed'' (Message msg))), w2)))
      | None \<Rightarrow>
          (case MarkApplied marshal resource w of
             (Some err1, w1) \<Rightarrow>
               (case timeNow w1 of
                  (t, w2) \<Rightarrow>
                    ((execAction\<lparr>FailedAt := Some t, Error := Some err1\<rparr>,
                      Some (wrap ''failed to mark resource as applied'' err1)), w2))
           | (None, w1) \<Rightarrow>
               (case timeNow w1 of
                  (t, w2) \<Rightarrow> ((execAction\<lparr>CompletedAt := Some t\<rparr>, None), w2))))"

definition executeAction ::
  "'c Marshal \<Rightarrow> 'c Transport \<Rightarrow> 'c Executor \<Rightarrow> 'c Action \<Rightarrow> 'c World
     \<Rightarrow> ('c ExecutionAction \<times> error option) \<times> 'c World" where
  "executeAction marshal tr e action w0 =
     (case timeNow w0 of
        (started, w) \<Rightarrow>
          (let execAction = \<lparr>Action = action, StartedAt = started, CompletedAt = None,
                             FailedAt = None, Error = None\<rparr>
           in case GetResource (executorGraph e) (ResourceID action) of
                None \<Rightarrow>
                  (case timeNow w of
                     (t, w1) \<Rightarrow>
                       ((execAction\<lparr>FailedAt := Some t,
                                     Error := Some (ResourceNotFound (ResourceID action))\<rparr>,
                         Some (ResourceNotFound (ResourceID action))), w1))
              | Some resource \<Rightarrow>
                  (case ActType action of
                     ActionCreate \<Rightarrow>
                       settle marshal resource execAction (Apply tr resource) w
                   | ActionUpdate \<Rightarrow>
                       settle marshal resource execAction (Apply tr resource) w
                   | ActionDelete \<Rightarrow>
                       settle marshal resource execAction (Destroy tr resource) w
                   | ActionNoOp \<Rightarrow>
                       (case timeNow w of
                          (t, w1) \<Rightarrow> ((execAction\<lparr>CompletedAt := Some t\<rparr>, None), w1))
                   | ActionOther name \<Rightarrow>
                       settle marshal resource execAction
                         (Some (''unknown action type: '' @ name)) w)))"

text \<open>The loop of \<open>Execute\<close> over \<open>plan.Actions\<close>; it returns at the first error.\<close>

fun executeActions ::
  "'c Marshal \<Rightarrow> 'c Transport \<Rightarrow> 'c Executor \<Rightarrow> 'c Action list \<Rightarrow> 'c ExecutionResult
     \<Rightarrow> 'c World \<Rightarrow> ('c ExecutionResult \<times> error option) \<times> 'c World" where
  "executeActions marshal tr e [] result w = ((result, None), w)"
| "executeActions marshal tr e (action # rest) result w =
     (case executeAction marshal tr e action w of
        ((execAction, Some err), w1) \<Rightarrow>
          (case timeNow w1 of
             (t, w2) \<Rightarrow>
               ((result\<lparr>ResultFailedAt := Some t, ResultError := Some err\<rparr>,
                 Some (wrap (''execution failed at action '' @ ResourceID action) err)), w2))
      | ((execAction, None), w1) \<Rightarrow>
          executeActions marshal tr e rest
            (result\<lparr>ResultActions := ResultActions result @ [execAction]\<rparr>) w1)"

text \<open>\<open>Execute\<close> returns \<open>(result, err)\<close>; the result is nil when the plan is not valid.\<close>

definition Execute ::
  "'c Marshal \<Rightarrow> 'c Transport \<Rightarrow> ValidateSched \<Rightarrow> 'c Executor \<Rightarrow> 'c Plan \<Rightarrow> 'c World
     \<Rightarrow> ('c ExecutionResult option \<times> error option) \<times> 'c World" where
  "Execute marshal tr vs e plan w0 =
     (case timeNow w0 of
        (started, w) \<Rightarrow>
          (let result = \<lparr>ResultPlan = plan, ResultStartedAt = started,
                         ResultCompletedAt = None, ResultFailedAt = None, Success = False,
                         ResultError = None, ResultActions = []\<rparr>
           in case ValidatePlan vs plan of
                Some err \<Rightarrow> ((None, Some (wrap ''plan validation failed'' err)), w)
              | None \<Rightarrow>
                  (case executeActions marshal tr e (Actions plan) result w of
                     ((result1, Some err), w1) \<Rightarrow> ((Some result1, Some err), w1)
                   | ((result1, None), w1) \<Rightarrow>
                       (case timeNow w1 of
                          (t, w2) \<Rightarrow>
                            ((Some (result1\<lparr>ResultCompletedAt := Some t, Success := True\<rparr>),
                              None), w2)))))"

definition GetSuccessCount :: "'c ExecutionResult \<Rightarrow> nat" where
  "GetSuccessCount r = length (filter (\<lambda>a. Error a = None) (ResultActions r))"

definition GetFailureCount :: "'c ExecutionResult \<Rightarrow> nat" where
  "GetFailureCount r = length (filter (\<lambda>a. Error a \<noteq> None) (ResultActions r))"

section \<open>The apt driver (drivers/pkg/apt.go)\<close>

text \<open>
  \<open>SSHClient.RunCommand\<close> runs a command on the remote machine \<open>'r\<close> and returns its
  output and its error, \<open>None\<close> for nil. \<open>Install\<close> and \<open>Remove\<close> run the same loop
  with the verb \<open>install\<close> or \<open>remove\<close> in the command; the loop keeps the results and
  the two counters. \<open>InstallTime\<close>, a duration, is left out.
\<close>

type_synonym 'r RunCommand = "string \<Rightarrow> 'r \<Rightarrow> (string \<times> string option) \<times> 'r"

record InstallResult =
  InstalledPackage :: Package
  Succeeded :: bool
  Failure :: "string option"
  Output :: string

definition pkgName :: "Package \<Rightarrow> string" where
  "pkgName pkg =
     (if Version pkg \<noteq> [] \<and> Version pkg \<noteq> ''latest''
      then Name pkg @ ''='' @ Version pkg else Name pkg)"

fun aptLoop ::
  "'r RunCommand \<Rightarrow> string \<Rightarrow> Package list \<Rightarrow> InstallResult list \<times> nat \<times> nat \<Rightarrow> 'r
     \<Rightarrow> (InstallResult list \<times> nat \<times> nat) \<times> 'r" where
  "aptLoop run verb [] counters r = (counters, r)"
| "aptLoop run verb (pkg # packages) (results, successCount, failureCount) r =
     (case run (''sudo apt-get '' @ verb @ '' -y '' @ pkgName pkg) r of
        ((out, Some err), r1) \<Rightarrow>
          aptLoop run verb packages
            (results @ [\<lparr>InstalledPackage = pkg, Succeeded = False, Failure = Some err,
                          Output = out\<rparr>],
             successCount, failureCount + 1) r1
      | ((out, None), r1) \<Rightarrow>
          aptLoop run verb packages
            (results @ [\<lparr>InstalledPackage = pkg, Succeeded = True, Failure = None,
                          Output = out\<rparr>],
             successCount + 1, failureCount) r1)"

definition Install :: "'r RunCommand \<Rightarrow> string \<Rightarrow> Package list \<Rightarrow> 'r \<Rightarrow> error option \<times> 'r" where
  "Install run hostName packages r =
     (case aptLoop run ''install'' packages ([], 0, 0) r of
        ((results, successCount, failureCount), r1) \<Rightarrow>
          (if failureCount = length packages
           then Some (AllInstallationsFailed hostName) else None, r1))"

definition Remove :: "'r RunCommand \<Rightarrow> string \<Rightarrow> Package list \<Rightarrow> 'r \<Rightarrow> error option \<times> 'r" where
  "Remove run hostName packages r =
     (case aptLoop run ''remove'' packages ([], 0, 0) r of
        ((results, successCount, failureCount), r1) \<Rightarrow>
          (if failureCount = length packages
           then Some (AllRemovalsFailed hostName) else None, r1))"

section \<open>Vocabulary of the properties\<close>

text \<open>
  The required edges of a graph: \<open>a\<close> depends on \<open>b\<close> when \<open>a\<close> is a node and the edge
  list of \<open>a\<close> holds a dependency on \<open>b\<close> flagged \<open>Required\<close>. A graph built by
  \<open>NewGraph\<close>, \<open>AddResource\<close> and \<open>RemoveResource\<close> is well formed: the two maps have
  the same keys and every node is stored under its own id.
\<close>

definition requiredTargets :: "'c Graph \<Rightarrow> ResourceID \<Rightarrow> ResourceID list" where
  "requiredTargets g a = map Target (filter Required (edgesOf g a))"

definition requiredRel :: "'c Graph \<Rightarrow> (ResourceID \<times> ResourceID) set" where
  "requiredRel g = {(a, b). a \<in> fmdom' (nodes g) \<and> b \<in> set (requiredTargets g a)}"

definition graph_wf :: "'c Graph \<Rightarrow> bool" where
  "graph_wf g \<longleftrightarrow> fmdom' (edges g) = fmdom' (nodes g) \<and> fmpred (\<lambda>rid r. ID r = rid) (nodes g)"

definition noDangling :: "'c Graph \<Rightarrow> bool" where
  "noDangling g \<longleftrightarrow> (\<forall>a \<in> fmdom' (nodes g). set (requiredTargets g a) \<subseteq> fmdom' (nodes g))"

definition remaining :: "'c Graph \<Rightarrow> ResourceID set \<Rightarrow> ResourceID \<Rightarrow> nat" where
  "remaining g P k = (\<Sum>a \<in> fmdom' (nodes g) - P. count_list (requiredTargets g a) k)"

definition keysOf :: "'c Graph \<Rightarrow> ResourceID set" where
  "keysOf g = fmdom' (nodes g) \<union> (\<Union>a \<in> fmdom' (nodes g). set (requiredTargets g a))"

definition kahnInv :: "'c Graph \<Rightarrow> InDegree \<Rightarrow> ResourceID list \<Rightarrow> ResourceID list \<Rightarrow> bool" where
  "kahnInv g m q res \<longleftrightarrow>
     distinct (res @ q) \<and> set (res @ q) \<subseteq> keysOf g \<and>
     (\<forall>k. degreeOf m k = int (remaining g (set res) k)) \<and>
     (\<forall>k \<in> set (res @ q). remaining g (set res) k = 0) \<and>
     (\<forall>k \<in> keysOf g. remaining g (set res) k = 0 \<longrightarrow> k \<in> set (res @ q)) \<and>
     (\<forall>i < length res. \<forall>a \<in> fmdom' (nodes g).
        res ! i \<in> set (requiredTargets g a) \<longrightarrow> a \<in> set (take i res))"

definition targetsOf :: "Dependency list \<Rightarrow> ResourceID list" where
  "targetsOf deps = map Target (filter Required deps)"

text \<open>The list the main loop of \<open>TopologicalSort\<close> ends with.\<close>

definition sortResult :: "Sched \<Rightarrow> 'c Graph \<Rightarrow> ResourceID list" where
  "sortResult sc g =
     kahnLoop g (inDegreeOf sc g) (zeroDegree (inDegreeOf sc g) (degreeOrder sc)) []"

text \<open>
  An error names a resource when it is one of the two errors \<open>ValidateDependencies\<close>
  builds with the id of the resource it is visiting. A node violates the layer check
  when one of its required edges targets an id that is no node, or a node of a higher
  layer.
\<close>

fun namesResource :: "error \<Rightarrow> ResourceID \<Rightarrow> bool" where
  "namesResource (InResource rid e) a = (rid = a)"
| "namesResource (NonExistentResource rid t) a = (rid = a)"
| "namesResource _ a = False"

definition badTarget :: "'c Graph \<Rightarrow> Layer \<Rightarrow> ResourceID \<Rightarrow> bool" where
  "badTarget g fromLayer b =
     (case fmlookup (nodes g) b of None \<Rightarrow> True | Some rb \<Rightarrow> fromLayer < Layer rb)"

definition violates :: "'c Graph \<Rightarrow> ResourceID \<Rightarrow> bool" where
  "violates g a =
     (case fmlookup (nodes g) a of
        None \<Rightarrow> False
      | Some r \<Rightarrow> list_ex (badTarget g (Layer r)) (requiredTargets g a))"

definition layersRespected :: "'c Graph \<Rightarrow> bool" where
  "layersRespected g \<longleftrightarrow>
     (\<forall>(a, b) \<in> requiredRel g.
        \<exists>ra rb. fmlookup (nodes g) a = Some ra \<and> fmlookup (nodes g) b = Some rb \<and>
                Layer rb \<le> Layer ra)"

text \<open>The layers of the nodes are not negative, as the six declared layers are.\<close>

definition nonNegativeLayers :: "'c Graph \<Rightarrow> bool" where
  "nonNegativeLayers g \<longleftrightarrow> fmpred (\<lambda>rid r. 0 \<le> Layer r) (nodes g)"

text \<open>
  The action the planner is said to emit for a resource, and the failure of drift
  detection on a resource: it has a state entry and \<open>DetectDrift\<close> returns an error.
\<close>

definition expectedAction :: "'c Marshal \<Rightarrow> 'c StateManager \<Rightarrow> 'c Resource \<Rightarrow> 'c Action" where
  "expectedAction marshal s r =
     (if GetState s (ID r) = None then
        \<lparr>ResourceID = ID r, ActType = ActionCreate, Changes = [],
         ActMetadata = reason ''resource not in state''\<rparr>
      else if DetectDrift marshal s r = Inr True then
        \<lparr>ResourceID = ID r, ActType = ActionUpdate, Changes = [],
         ActMetadata = reason ''configuration drift detected''\<rparr>
      else
        \<lparr>ResourceID = ID r, ActType = ActionNoOp, Changes = [],
         ActMetadata = reason ''resource up to date''\<rparr>)"

definition driftFails :: "'c Marshal \<Rightarrow> 'c StateManager \<Rightarrow> 'c Resource \<Rightarrow> bool" where
  "driftFails marshal s r \<longleftrightarrow> GetState s (ID r) \<noteq> None \<and> isl (DetectDrift marshal s r)"

definition plannable :: "'c Marshal \<Rightarrow> 'c Planner \<Rightarrow> ResourceID \<Rightarrow> bool" where
  "plannable marshal p rid =
     (case GetResource (plannerGraph p) rid of
        None \<Rightarrow> False
      | Some r \<Rightarrow> \<not> driftFails marshal (stateManager p) r)"

definition plannedAction :: "'c Marshal \<Rightarrow> 'c Planner \<Rightarrow> ResourceID \<Rightarrow> 'c Action" where
  "plannedAction marshal p rid =
     expectedAction marshal (stateManager p) (the (GetResource (plannerGraph p) rid))"

section \<open>Example inputs\<close>

text \<open>
  Resources, graphs and visiting orders used to run the definitions. \<open>addAll\<close> builds
  a graph as the commands do, by \<open>AddResource\<close> on each resource in turn.
\<close>

definition requires :: "ResourceID \<Rightarrow> Dependency" where
  "requires t = \<lparr>Target = t, EdgeKind = EdgeDependsOn, Required = True\<rparr>"

definition pendingState :: "'c ResourceState" where
  "pendingState = \<lparr>Status = StatePending, LastApplied = 0, Checksum = [], Metadata = fmempty\<rparr>"

definition service :: "ResourceID \<Rightarrow> Layer \<Rightarrow> Dependency list \<Rightarrow> unit Resource" where
  "service rid l deps =
     \<lparr>ID = rid, Type = ''service'', Layer = l, Dependencies = deps, State = pendingState,
      Config = (), Kind = ServiceKind\<rparr>"

definition addAll :: "'c Resource list \<Rightarrow> 'c Graph \<Rightarrow> error + 'c Graph" where
  "addAll rs g =
     fold (\<lambda>r acc. case acc of Inl e \<Rightarrow> Inl e | Inr g1 \<Rightarrow> AddResource r g1) rs (Inr g)"

definition danglingGraph :: "unit Graph" where
  "danglingGraph =
     \<lparr>nodes = fmap_of_list [(''a'', service ''a'' 3 [requires ''x''])],
      edges = fmap_of_list [(''a'', [requires ''x''])]\<rparr>"

definition danglingSched :: "ResourceID list \<Rightarrow> Sched" where
  "danglingSched ks = \<lparr>nodeOrder = [''a''], edgeOrder = [''a''], degreeOrder = ks\<rparr>"

definition maskedCycleGraph :: "unit Graph" where
  "maskedCycleGraph =
     \<lparr>nodes = fmap_of_list
        [(''a'', service ''a'' 3 [requires ''x'', requires ''y'']),
         (''b'', service ''b'' 3 [requires ''c'']),
         (''c'', service ''c'' 3 [requires ''b''])],
      edges = fmap_of_list
        [(''a'', [requires ''x'', requires ''y'']), (''b'', [requires ''c'']),
         (''c'', [requires ''b''])]\<rparr>"

definition maskedCycleSched :: Sched where
  "maskedCycleSched =
     \<lparr>nodeOrder = [''a'', ''b'', ''c''], edgeOrder = [''a'', ''b'', ''c''],
      degreeOrder = [''a'', ''b'', ''c'', ''x'', ''y'']\<rparr>"

definition selfLoopGraph :: "unit Graph" where
  "selfLoopGraph =
     \<lparr>nodes = fmap_of_list
        [(''a'', service ''a'' 3 [requires ''x'']),
         (''b'', service ''b'' 3 [requires ''c'']),
         (''c'', service ''c'' 3 [requires ''c''])],
      edges = fmap_of_list
        [(''a'', [requires ''x'']), (''b'', [requires ''c'']), (''c'', [requires ''c''])]\<rparr>"

definition selfLoopSched :: Sched where
  "selfLoopSched =
     \<lparr>nodeOrder = [''a'', ''b'', ''c''], edgeOrder = [''a'', ''b'', ''c''],
      degreeOrder = [''a'', ''b'', ''c'', ''x'']\<rparr>"

definition cyclicLayerGraph :: "unit Graph" where
  "cyclicLayerGraph =
     \<lparr>nodes = fmap_of_list
        [(''a'', service ''a'' 1 [requires ''b'']), (''b'', service ''b'' 3 [requires ''a''])],
      edges = fmap_of_list [(''a'', [requires ''b'']), (''b'', [requires ''a''])]\<rparr>"

definition upwardGraph :: "unit Graph" where
  "upwardGraph =
     \<lparr>nodes = fmap_of_list
        [(''a'', service ''a'' 1 [requires ''b'']), (''b'', service ''b'' 3 [])],
      edges = fmap_of_list [(''a'', [requires ''b'']), (''b'', [])]\<rparr>"

definition downwardGraph :: "unit Graph" where
  "downwardGraph =
     \<lparr>nodes = fmap_of_list
        [(''a'', service ''a'' 3 [requires ''b'']), (''b'', service ''b'' 1 [])],
      edges = fmap_of_list [(''a'', [requires ''b'']), (''b'', [])]\<rparr>"

definition twoNodeSched :: Sched where
  "twoNodeSched =
     \<lparr>nodeOrder = [''a'', ''b''], edgeOrder = [''a'', ''b''], degreeOrder = [''a'', ''b'']\<rparr>"

definition twoViolatorGraph :: "unit Graph" where
  "twoViolatorGraph =
     \<lparr>nodes = fmap_of_list
        [(''a'', service ''a'' 1 [requires ''c'']), (''b'', service ''b'' 2 [requires ''c'']),
         (''c'', service ''c'' 3 [])],
      edges = fmap_of_list
        [(''a'', [requires ''c'']), (''b'', [requires ''c'']), (''c'', [])]\<rparr>"

definition threeNodeSched :: Sched where
  "threeNodeSched =
     \<lparr>nodeOrder = [''a'', ''b'', ''c''], edgeOrder = [''a'', ''b'', ''c''],
      degreeOrder = [''a'', ''b'', ''c'']\<rparr>"

text \<open>
  A configuration of string fields; \<open>None\<close> is a value \<open>encoding/json\<close> rejects
  (a channel, a function, NaN). \<open>encode\<close> is a marshaller in the place of
  \<open>json.Marshal\<close>: an error on such a value, else the fields in order.
\<close>

type_synonym Cfg = "(string \<times> string option) list"

definition encode :: "Cfg Value \<Rightarrow> string option" where
  "encode v =
     (case v of
        TextValue s \<Rightarrow> Some s
      | ConfigValue kvs \<Rightarrow>
          if list_ex (\<lambda>kv. snd kv = None) kvs then None
          else Some (concat (map (\<lambda>kv. fst kv @ '':'' @ the (snd kv) @ '';'') kvs)))"

definition package :: "string \<Rightarrow> string \<Rightarrow> Cfg Resource" where
  "package name version =
     \<lparr>ID = ''package:apt:'' @ name, Type = ''package'', Layer = 1, Dependencies = [],
      State = pendingState,
      Config = [(''name'', Some name), (''version'', Some version), (''manager'', Some ''apt'')],
      Kind = PackageKind \<lparr>Name = name, Version = version, Manager = ''apt''\<rparr>\<rparr>"

definition nginxGraph :: "Cfg Graph" where
  "nginxGraph =
     \<lparr>nodes = fmap_of_list [(''package:apt:nginx'', package ''nginx'' ''latest'')],
      edges = fmap_of_list [(''package:apt:nginx'', [])]\<rparr>"

definition healthyDisk :: "'c Disk" where
  "healthyDisk = \<lparr>content = None, mkdirError = None, writeError = None, writes = 0\<rparr>"

definition freshWorld :: "'c Graph \<Rightarrow> 'c World" where
  "freshWorld g =
     \<lparr>manager = NewStateManager ''.settle/state.json'' g, disk = healthyDisk, clock = 0\<rparr>"


definition unencodable :: "Cfg Resource" where
  "unencodable =
     (package ''nginx'' ''latest'')
       \<lparr>Config := [(''name'', Some ''nginx''), (''worker_limit'', None)]\<rparr>"

definition unencodableGraph :: "Cfg Graph" where
  "unencodableGraph =
     \<lparr>nodes = fmap_of_list [(''package:apt:nginx'', unencodable)],
      edges = fmap_of_list [(''package:apt:nginx'', [])]\<rparr>"

definition nginxSched :: Sched where
  "nginxSched =
     \<lparr>nodeOrder = [''package:apt:nginx''], edgeOrder = [''package:apt:nginx''],
      degreeOrder = [''package:apt:nginx'']\<rparr>"

definition unencodablePlanner :: "Cfg Planner" where
  "unencodablePlanner =
     \<lparr>plannerGraph = unencodableGraph,
      stateManager = manager (snd (MarkApplied encode (package ''nginx'' ''latest'')
                                    (freshWorld unencodableGraph)))\<rparr>"

definition stackGraph :: "Cfg Graph" where
  "stackGraph =
     \<lparr>nodes = fmap_of_list
        [(''package:apt:curl'', package ''curl'' ''latest''),
         (''package:apt:nginx'',
            (package ''nginx'' ''latest'')\<lparr>Dependencies := [requires ''package:apt:redis'']\<rparr>),
         (''package:apt:redis'', package ''redis'' ''7.0'')],
      edges = fmap_of_list
        [(''package:apt:curl'', []), (''package:apt:nginx'', [requires ''package:apt:redis'']),
         (''package:apt:redis'', [])]\<rparr>"

definition stackSched :: "ResourceID list \<Rightarrow> Sched" where
  "stackSched ks =
     \<lparr>nodeOrder = [''package:apt:curl'', ''package:apt:nginx'', ''package:apt:redis''],
      edgeOrder = [''package:apt:redis'', ''package:apt:nginx'', ''package:apt:curl''],
      degreeOrder = ks\<rparr>"

definition stackPlanner :: "Cfg Planner" where
  "stackPlanner =
     \<lparr>plannerGraph = stackGraph,
      stateManager = manager
        (snd (MarkApplied encode (package ''redis'' ''6.0'')
          (snd (MarkApplied encode
                  ((package ''nginx'' ''latest'')
                     \<lparr>Dependencies := [requires ''package:apt:redis'']\<rparr>)
                  (freshWorld stackGraph)))))\<rparr>"

definition freshPlanner :: "Cfg Planner" where
  "freshPlanner =
     \<lparr>plannerGraph = stackGraph, stateManager = NewStateManager ''.settle/state.json'' stackGraph\<rparr>"

definition emitted :: "ResourceID \<Rightarrow> ActionType \<Rightarrow> string \<Rightarrow> Cfg Action" where
  "emitted rid ty why = \<lparr>ResourceID = rid, ActType = ty, Changes = [], ActMetadata = reason why\<rparr>"

definition plainResource :: "ResourceID \<Rightarrow> string \<Rightarrow> Layer \<Rightarrow> Kind \<Rightarrow> Cfg Resource" where
  "plainResource rid ty l k =
     \<lparr>ID = rid, Type = ty, Layer = l, Dependencies = [], State = pendingState,
      Config = [(''name'', Some rid)], Kind = k\<rparr>"

definition siteGraph :: "Cfg Graph" where
  "siteGraph =
     \<lparr>nodes = fmap_of_list
        [(''host:web1'', plainResource ''host:web1'' ''host'' 0 HostKind),
         (''service:nginx'', plainResource ''service:nginx'' ''service'' 3 ServiceKind),
         (''package:apt:curl'', package ''curl'' ''latest'')],
      edges = fmap_of_list
        [(''host:web1'', []), (''service:nginx'', []), (''package:apt:curl'', [])]\<rparr>"

definition siteSched :: Sched where
  "siteSched =
     \<lparr>nodeOrder = [''host:web1'', ''service:nginx'', ''package:apt:curl''],
      edgeOrder = [''host:web1'', ''service:nginx'', ''package:apt:curl''],
      degreeOrder = [''host:web1'', ''service:nginx'', ''package:apt:curl'']\<rparr>"

definition siteValidateSched :: ValidateSched where
  "siteValidateSched =
     \<lparr>firstSort = siteSched, secondSort = siteSched,
      layerOrder = [''host:web1'', ''service:nginx'', ''package:apt:curl'']\<rparr>"

definition sitePlan :: "Cfg Plan" where
  "sitePlan =
     \<lparr>Actions = [emitted ''host:web1'' ActionCreate ''resource not in state'',
                 emitted ''service:nginx'' ActionCreate ''resource not in state'',
                 emitted ''package:apt:curl'' ActionCreate ''resource not in state''],
      CreatedAt = 0, PlanGraph = siteGraph\<rparr>"

definition reachable :: "Cfg Transport" where
  "reachable = \<lparr>applyRemote = (\<lambda>r. None), destroyRemote = (\<lambda>r. None)\<rparr>"

definition siteRun :: "(Cfg ExecutionResult option \<times> error option) \<times> Cfg World" where
  "siteRun =
     Execute encode reachable siteValidateSched \<lparr>executorGraph = siteGraph\<rparr> sitePlan
       (freshWorld siteGraph)"

section \<open>Properties of the apt driver\<close>

text \<open>
  C10. \<open>Install\<close> and \<open>Remove\<close>, called with an empty package list, return an error
  that says every installation (every removal) failed, although no command ran and no
  item failed: both counters are 0, the remote machine is untouched, and the test
  \<open>failureCount == len(packages)\<close> compares 0 with 0.
\<close>

theorem apt_empty_list_reports_all_failed:
  "Install run hostName [] r = (Some (AllInstallationsFailed hostName), r) \<and>
   Remove run hostName [] r = (Some (AllRemovalsFailed hostName), r) \<and>
   aptLoop run verb [] ([], 0, 0) r = (([], 0, 0), r)"
  by (simp add: Install_def Remove_def)

section \<open>Well-formed graphs\<close>

text \<open>Every graph the interface of \<open>Graph\<close> can build is well formed.\<close>

lemma graph_wf_NewGraph: "graph_wf NewGraph"
  by (simp add: graph_wf_def NewGraph_def)

lemma graph_wf_AddResource:
  "graph_wf g \<Longrightarrow> AddResource r g = Inr g1 \<Longrightarrow> graph_wf g1"
  by (auto simp: graph_wf_def AddResource_def split: option.splits)

lemma graph_wf_RemoveResource: "graph_wf g \<Longrightarrow> graph_wf (RemoveResource rid g)"
  by (auto simp: graph_wf_def RemoveResource_def)

text \<open>A finite map can be visited in some order, so every graph has a valid schedule.\<close>

lemma rangeOrder_exists: "\<exists>ks. rangeOrder m ks"
proof -
  from finite_distinct_list [of "fmdom' m"] obtain ks where "set ks = fmdom' m" and "distinct ks"
    by auto
  then show ?thesis unfolding rangeOrder_def by blast
qed

lemma validSched_exists: "\<exists>sc. validSched sc g"
proof -
  obtain ks1 where 1: "rangeOrder (nodes g) ks1" using rangeOrder_exists by blast
  obtain ks2 where 2: "rangeOrder (edges g) ks2" using rangeOrder_exists by blast
  obtain ks3 where 3: "rangeOrder (countIncoming g ks2 (initInDegree ks1)) ks3"
    using rangeOrder_exists by blast
  from 1 2 3 have "validSched \<lparr>nodeOrder = ks1, edgeOrder = ks2, degreeOrder = ks3\<rparr> g"
    by (simp add: validSched_def inDegreeOf_def)
  then show ?thesis ..
qed

section \<open>Kahn's algorithm as the source runs it\<close>

text \<open>
  \<open>remaining g P k\<close> counts the required edges into \<open>k\<close> whose source has not been
  emitted yet (\<open>P\<close> is the set of emitted ids); \<open>kahnInv\<close> is the invariant of the main
  loop: the counters are these numbers, the queue holds exactly the keys not yet emitted
  whose number is 0, and every emitted id comes after all the nodes that depend on it.
\<close>

lemma releaseDeps_effect:
  "fold releaseDep deps (m, q) = (m', q') \<Longrightarrow>
     (\<forall>k. degreeOf m' k = degreeOf m k - int (count_list (targetsOf deps) k)) \<and>
     (\<exists>zs. q' = q @ zs \<and> distinct zs \<and>
        set zs = {t \<in> set (targetsOf deps).
                    0 < degreeOf m t \<and> degreeOf m t \<le> int (count_list (targetsOf deps) t)})"
proof (induction deps arbitrary: m q)
  case Nil
  then show ?case by (simp add: targetsOf_def)
next
  case (Cons dep deps)
  show ?case
  proof (cases "Required dep")
    case False
    then have "fold releaseDep deps (m, q) = (m', q')"
      using Cons.prems by (simp add: releaseDep.simps)
    from Cons.IH [OF this] False show ?thesis by (simp add: targetsOf_def)
  next
    case True
    define t where "t = Target dep"
    define m1 where "m1 = fmupd t (degreeOf m t - 1) m"
    define q1 where "q1 = (if degreeOf m t = 1 then q @ [t] else q)"
    have step: "releaseDep dep (m, q) = (m1, q1)"
      using True by (auto simp: releaseDep.simps Let_def t_def m1_def q1_def)
    then have "fold releaseDep deps (m1, q1) = (m', q')" using Cons.prems by simp
    from Cons.IH [OF this] obtain zs where
      deg: "\<And>k. degreeOf m' k = degreeOf m1 k - int (count_list (targetsOf deps) k)" and
      q': "q' = q1 @ zs" and dz: "distinct zs" and
      sz: "set zs = {u \<in> set (targetsOf deps).
                      0 < degreeOf m1 u \<and> degreeOf m1 u \<le> int (count_list (targetsOf deps) u)}"
      by blast
    have tg: "targetsOf (dep # deps) = t # targetsOf deps"
      using True by (simp add: targetsOf_def t_def)
    have d1: "degreeOf m1 k = (if k = t then degreeOf m t - 1 else degreeOf m k)" for k
      by (simp add: m1_def)
    have cnt: "0 < count_list (targetsOf deps) u \<longleftrightarrow> u \<in> set (targetsOf deps)" for u
      by (simp add: count_list_0_iff zero_less_iff_neq_zero)
    define zs' where "zs' = (if degreeOf m t = 1 then [t] else []) @ zs"
    have a: "\<forall>k. degreeOf m' k = degreeOf m k - int (count_list (targetsOf (dep # deps)) k)"
      by (simp add: deg d1 tg)
    have b: "q' = q @ zs'" by (simp add: q' q1_def zs'_def)
    have c: "distinct zs'" using dz sz by (auto simp: zs'_def d1)
    have d: "set zs' = {u \<in> set (targetsOf (dep # deps)).
                0 < degreeOf m u \<and> degreeOf m u \<le> int (count_list (targetsOf (dep # deps)) u)}"
    proof (rule set_eqI)
      fix u
      show "u \<in> set zs' \<longleftrightarrow> u \<in> {u \<in> set (targetsOf (dep # deps)).
                0 < degreeOf m u \<and> degreeOf m u \<le> int (count_list (targetsOf (dep # deps)) u)}"
      proof (cases "u = t")
        case False
        then show ?thesis by (auto simp: zs'_def sz d1 tg)
      next
        case True
        show ?thesis
        proof (cases "degreeOf m t = 1")
          case True
          with \<open>u = t\<close> show ?thesis by (simp add: zs'_def tg)
        next
          case False
          have "u \<in> set zs' \<longleftrightarrow> t \<in> set (targetsOf deps) \<and> 0 < degreeOf m t - 1 \<and>
                   degreeOf m t - 1 \<le> int (count_list (targetsOf deps) t)"
            using False \<open>u = t\<close> by (simp add: zs'_def sz d1)
          also have "\<dots> \<longleftrightarrow> 0 < degreeOf m t \<and> degreeOf m t \<le> int (count_list (targetsOf deps) t) + 1"
            using False cnt [of t] by auto
          finally show ?thesis using \<open>u = t\<close> by (auto simp: tg)
        qed
      qed
    qed
    from a b c d show ?thesis by blast
  qed
qed

lemma edgesOf_outside: "graph_wf g \<Longrightarrow> c \<notin> fmdom' (nodes g) \<Longrightarrow> edgesOf g c = []"
proof -
  assume "graph_wf g" and "c \<notin> fmdom' (nodes g)"
  then have "c \<notin> fmdom' (edges g)" by (simp add: graph_wf_def)
  then have "fmlookup (edges g) c = None" by (rule fmdom'_notD)
  then show ?thesis by (simp add: edgesOf_def)
qed

lemma remaining_step:
  assumes "graph_wf g" and "c \<notin> P"
  shows "remaining g P k = count_list (requiredTargets g c) k + remaining g (insert c P) k"
proof (cases "c \<in> fmdom' (nodes g)")
  case True
  then have "c \<in> fmdom' (nodes g) - P" using assms by simp
  moreover have "fmdom' (nodes g) - insert c P = (fmdom' (nodes g) - P) - {c}" by auto
  ultimately show ?thesis
    unfolding remaining_def by (simp add: sum.remove)
next
  case False
  then have "fmdom' (nodes g) - insert c P = fmdom' (nodes g) - P" by auto
  moreover have "requiredTargets g c = []"
    using False assms by (simp add: requiredTargets_def edgesOf_outside)
  ultimately show ?thesis unfolding remaining_def by simp
qed

lemma remaining_zero_iff:
  "remaining g P k = 0 \<longleftrightarrow> (\<forall>a \<in> fmdom' (nodes g) - P. k \<notin> set (requiredTargets g a))"
  unfolding remaining_def by (simp add: count_list_0_iff)

lemma targets_in_keys:
  "graph_wf g \<Longrightarrow> t \<in> set (requiredTargets g c) \<Longrightarrow> t \<in> keysOf g"
proof -
  assume wf: "graph_wf g" and t: "t \<in> set (requiredTargets g c)"
  have "c \<in> fmdom' (nodes g)"
  proof (rule ccontr)
    assume "c \<notin> fmdom' (nodes g)"
    then have "requiredTargets g c = []" using wf by (simp add: requiredTargets_def edgesOf_outside)
    with t show False by simp
  qed
  with t show ?thesis unfolding keysOf_def by blast
qed

lemma kahnInv_step:
  assumes wf: "graph_wf g" and inv: "kahnInv g m (c # q) res"
    and rel: "fold releaseDep (edgesOf g c) (m, q) = (m', q')"
  shows "kahnInv g m' q' (res @ [c])"
proof -
  let ?P = "set res" and ?P' = "set (res @ [c])"
  let ?ts = "requiredTargets g c"
  from inv have dist: "distinct (res @ c # q)" and sub: "set (res @ c # q) \<subseteq> keysOf g"
    and deg: "\<And>k. degreeOf m k = int (remaining g ?P k)"
    and zero: "\<And>k. k \<in> set (res @ c # q) \<Longrightarrow> remaining g ?P k = 0"
    and ready: "\<And>k. k \<in> keysOf g \<Longrightarrow> remaining g ?P k = 0 \<Longrightarrow> k \<in> set (res @ c # q)"
    and ord: "\<And>i a. i < length res \<Longrightarrow> a \<in> fmdom' (nodes g) \<Longrightarrow>
                res ! i \<in> set (requiredTargets g a) \<Longrightarrow> a \<in> set (take i res)"
    unfolding kahnInv_def by blast+
  have cP: "c \<notin> ?P" using dist by simp
  have P': "?P' = insert c ?P" by simp
  have rem: "remaining g ?P k = count_list ?ts k + remaining g ?P' k" for k
    unfolding P' by (rule remaining_step [OF wf cP])
  have tsdef: "targetsOf (edgesOf g c) = ?ts" by (simp add: targetsOf_def requiredTargets_def)
  from releaseDeps_effect [OF rel] obtain zs where
    deg': "\<And>k. degreeOf m' k = degreeOf m k - int (count_list ?ts k)" and
    q': "q' = q @ zs" and dz: "distinct zs" and
    sz: "set zs = {t \<in> set ?ts. 0 < degreeOf m t \<and> degreeOf m t \<le> int (count_list ?ts t)}"
    unfolding tsdef by blast
  have zs_iff: "t \<in> set zs \<longleftrightarrow> t \<in> set ?ts \<and> remaining g ?P' t = 0" for t
  proof -
    have "t \<in> set ?ts \<Longrightarrow> 0 < count_list ?ts t"
      by (simp add: count_list_0_iff zero_less_iff_neq_zero)
    then show ?thesis using rem [of t] by (auto simp: sz deg)
  qed
  have zs_pos: "t \<in> set zs \<Longrightarrow> 0 < remaining g ?P t" for t
  proof -
    assume "t \<in> set zs"
    then have "t \<in> set ?ts" by (simp add: zs_iff)
    then have "0 < count_list ?ts t" by (simp add: count_list_0_iff zero_less_iff_neq_zero)
    then show ?thesis using rem [of t] by simp
  qed
  have zs_new: "t \<in> set zs \<Longrightarrow> t \<notin> set (res @ c # q)" for t
    using zs_pos [of t] zero [of t] by auto
  have i1: "distinct ((res @ [c]) @ q')"
    using dist dz zs_new by (auto simp: q')
  have i2: "set ((res @ [c]) @ q') \<subseteq> keysOf g"
    using sub zs_iff targets_in_keys [OF wf] by (auto simp: q')
  have i3: "\<forall>k. degreeOf m' k = int (remaining g ?P' k)"
    using rem by (simp add: deg' deg)
  have i4: "\<forall>k \<in> set ((res @ [c]) @ q'). remaining g ?P' k = 0"
  proof
    fix k assume "k \<in> set ((res @ [c]) @ q')"
    then consider "k \<in> set (res @ c # q)" | "k \<in> set zs" by (auto simp: q')
    then show "remaining g ?P' k = 0"
    proof cases
      case 1
      from zero [OF this] rem [of k] show ?thesis by simp
    next
      case 2
      then show ?thesis by (simp add: zs_iff)
    qed
  qed
  have i5: "\<forall>k \<in> keysOf g. remaining g ?P' k = 0 \<longrightarrow> k \<in> set ((res @ [c]) @ q')"
  proof (intro ballI impI)
    fix k assume k: "k \<in> keysOf g" and z: "remaining g ?P' k = 0"
    show "k \<in> set ((res @ [c]) @ q')"
    proof (cases "remaining g ?P k = 0")
      case True
      from ready [OF k this] show ?thesis by (auto simp: q')
    next
      case False
      then have "0 < count_list ?ts k" using rem [of k] z by simp
      then have "k \<in> set ?ts" by (simp add: count_list_0_iff zero_less_iff_neq_zero)
      with z have "k \<in> set zs" by (simp add: zs_iff)
      then show ?thesis by (simp add: q')
    qed
  qed
  have i6: "\<forall>i < length (res @ [c]). \<forall>a \<in> fmdom' (nodes g).
        (res @ [c]) ! i \<in> set (requiredTargets g a) \<longrightarrow> a \<in> set (take i (res @ [c]))"
  proof (intro allI impI ballI)
    fix i a
    assume i: "i < length (res @ [c])" and a: "a \<in> fmdom' (nodes g)"
      and t: "(res @ [c]) ! i \<in> set (requiredTargets g a)"
    show "a \<in> set (take i (res @ [c]))"
    proof (cases "i < length res")
      case True
      with t have "res ! i \<in> set (requiredTargets g a)" by (simp add: nth_append)
      from ord [OF True a this] True show ?thesis by simp
    next
      case False
      with i have il: "i = length res" by simp
      with t have ct: "c \<in> set (requiredTargets g a)" by simp
      have "remaining g ?P c = 0" using zero [of c] by simp
      then have "a \<in> ?P" using a ct by (auto simp: remaining_zero_iff)
      then show ?thesis by (simp add: il)
    qed
  qed
  from i1 i2 i3 i4 i5 i6 show ?thesis unfolding kahnInv_def by blast
qed

lemma kahnInv_loop:
  "graph_wf g \<Longrightarrow> kahnInv g m q res \<Longrightarrow> \<exists>m'. kahnInv g m' [] (kahnLoop g m q res)"
proof (induction g m q res rule: kahnLoop.induct)
  case (1 g m result)
  then show ?case by auto
next
  case (2 g m current queue result)
  obtain m1 q1 where f: "fold releaseDep (edgesOf g current) (m, queue) = (m1, q1)"
    by (cases "fold releaseDep (edgesOf g current) (m, queue)")
  from kahnInv_step [OF "2.prems"(1) "2.prems"(2) f]
  have "kahnInv g m1 q1 (result @ [current])" .
  from "2.IH" [OF f [symmetric] "2.prems"(1) this] show ?case by (simp add: f)
qed

lemma countDeps_effect:
  "degreeOf (fold countDep deps m) k = degreeOf m k + int (count_list (targetsOf deps) k) \<and>
   fmdom' (fold countDep deps m) = fmdom' m \<union> set (targetsOf deps)"
proof (induction deps arbitrary: m)
  case Nil
  then show ?case by (simp add: targetsOf_def)
next
  case (Cons dep deps)
  show ?case
  proof (cases "Required dep")
    case True
    then show ?thesis
      using Cons.IH [of "countDep dep m"] by (auto simp: countDep_def targetsOf_def)
  next
    case False
    then show ?thesis
      using Cons.IH [of m] by (simp add: countDep_def targetsOf_def)
  qed
qed

lemma countIncoming_effect:
  "degreeOf (countIncoming g ks m) k
     = degreeOf m k + int (\<Sum>a\<leftarrow>ks. count_list (requiredTargets g a) k) \<and>
   fmdom' (countIncoming g ks m) = fmdom' m \<union> (\<Union>a \<in> set ks. set (requiredTargets g a))"
proof (induction ks arbitrary: m)
  case Nil
  then show ?case by (simp add: countIncoming_def)
next
  case (Cons a ks)
  have unfold: "countIncoming g (a # ks) m = countIncoming g ks (fold countDep (edgesOf g a) m)"
    by (simp add: countIncoming_def)
  have tg: "targetsOf (edgesOf g a) = requiredTargets g a"
    by (simp add: targetsOf_def requiredTargets_def)
  show ?case
    unfolding unfold
    using Cons.IH [of "fold countDep (edgesOf g a) m"] countDeps_effect [of "edgesOf g a" m k]
    by (auto simp: tg)
qed

lemma initInDegree_effect:
  "degreeOf (initInDegree ks) k = 0 \<and> fmdom' (initInDegree ks) = set ks"
proof -
  have "degreeOf (fold (\<lambda>k m. fmupd k 0 m) ks m) k = (if k \<in> set ks then 0 else degreeOf m k) \<and>
        fmdom' (fold (\<lambda>k m. fmupd k 0 m) ks m) = fmdom' m \<union> set ks" for m :: InDegree
    by (induction ks arbitrary: m) auto
  from this [of fmempty] show ?thesis by (simp add: initInDegree_def degreeOf_def)
qed

lemma inDegreeOf_effect:
  assumes wf: "graph_wf g" and vs: "validSched sc g"
  shows "degreeOf (inDegreeOf sc g) k = int (remaining g {} k)"
    and "fmdom' (inDegreeOf sc g) = keysOf g"
proof -
  from vs have no: "set (nodeOrder sc) = fmdom' (nodes g)"
    and eo: "distinct (edgeOrder sc)" "set (edgeOrder sc) = fmdom' (edges g)"
    by (simp_all add: validSched_def rangeOrder_def)
  from wf have en: "fmdom' (edges g) = fmdom' (nodes g)" by (simp add: graph_wf_def)
  have "(\<Sum>a\<leftarrow>edgeOrder sc. count_list (requiredTargets g a) k)
          = (\<Sum>a \<in> fmdom' (nodes g). count_list (requiredTargets g a) k)"
    using eo en by (simp add: sum_list_distinct_conv_sum_set)
  then show "degreeOf (inDegreeOf sc g) k = int (remaining g {} k)"
    unfolding inDegreeOf_def remaining_def
    using countIncoming_effect [of g "edgeOrder sc" "initInDegree (nodeOrder sc)" k]
      initInDegree_effect [of "nodeOrder sc" k]
    by simp
  show "fmdom' (inDegreeOf sc g) = keysOf g"
    unfolding inDegreeOf_def keysOf_def
    using countIncoming_effect [of g "edgeOrder sc" "initInDegree (nodeOrder sc)" k]
      initInDegree_effect [of "nodeOrder sc" k] no eo en
    by simp
qed

lemma kahnInv_init:
  assumes wf: "graph_wf g" and vs: "validSched sc g"
  shows "kahnInv g (inDegreeOf sc g) (zeroDegree (inDegreeOf sc g) (degreeOrder sc)) []"
proof -
  from vs have d: "distinct (degreeOrder sc)" and s: "set (degreeOrder sc) = keysOf g"
    using inDegreeOf_effect (2) [OF wf vs] by (simp_all add: validSched_def rangeOrder_def)
  show ?thesis
    unfolding kahnInv_def zeroDegree_def
    using d s inDegreeOf_effect (1) [OF wf vs] by auto
qed

lemma TopologicalSort_sortResult:
  "TopologicalSort sc g =
     (if length (sortResult sc g) \<noteq> len (nodes g) then Inl CircularDependency
      else Inr (sortResult sc g))"
  by (simp add: TopologicalSort_def sortResult_def Let_def)

lemma sortResult_inv:
  assumes "graph_wf g" and "validSched sc g"
  shows "\<exists>m. kahnInv g m [] (sortResult sc g)"
  unfolding sortResult_def
  by (rule kahnInv_loop [OF assms(1) kahnInv_init [OF assms]])

lemma keysOf_noDangling: "noDangling g \<Longrightarrow> keysOf g = fmdom' (nodes g)"
  unfolding keysOf_def noDangling_def by blast

lemma finite_requiredRel: "finite (requiredRel g)"
proof -
  have "requiredRel g \<subseteq> fmdom' (nodes g) \<times> (\<Union>a \<in> fmdom' (nodes g). set (requiredTargets g a))"
    unfolding requiredRel_def by blast
  moreover have "finite (fmdom' (nodes g) \<times> (\<Union>a \<in> fmdom' (nodes g). set (requiredTargets g a)))"
    by simp
  ultimately show ?thesis by (rule finite_subset)
qed

lemma kahn_complete:
  assumes wf: "graph_wf g" and nd: "noDangling g" and ac: "acyclic (requiredRel g)"
    and inv: "kahnInv g m [] res"
  shows "set res = fmdom' (nodes g)"
proof -
  let ?N = "fmdom' (nodes g)"
  from inv have sub: "set res \<subseteq> ?N"
    and ready: "\<And>k. k \<in> ?N \<Longrightarrow> remaining g (set res) k = 0 \<Longrightarrow> k \<in> set res"
    unfolding kahnInv_def keysOf_noDangling [OF nd] by auto
  have "?N - set res = {}"
  proof (rule ccontr)
    assume ne: "?N - set res \<noteq> {}"
    have w: "wf (requiredRel g)" by (rule finite_acyclic_wf [OF finite_requiredRel ac])
    from wfE_min' [OF w ne] obtain z where
      z: "z \<in> ?N - set res" and min: "\<And>y. (y, z) \<in> requiredRel g \<Longrightarrow> y \<notin> ?N - set res"
      by blast
    from z ready [of z] have "remaining g (set res) z \<noteq> 0" by auto
    then obtain a where "a \<in> ?N - set res" and "z \<in> set (requiredTargets g a)"
      by (auto simp: remaining_zero_iff)
    then have "(a, z) \<in> requiredRel g" by (simp add: requiredRel_def)
    from min [OF this] \<open>a \<in> ?N - set res\<close> show False by simp
  qed
  with sub show ?thesis by blast
qed

lemma kahn_order:
  assumes inv: "kahnInv g m [] res" and e: "(a, b) \<in> requiredRel g" and b: "b \<in> set res"
  shows "\<exists>i j. i < j \<and> j < length res \<and> res ! i = a \<and> res ! j = b"
proof -
  from b obtain j where j: "j < length res" and bj: "res ! j = b" by (auto simp: in_set_conv_nth)
  from inv have "\<And>i a. i < length res \<Longrightarrow> a \<in> fmdom' (nodes g) \<Longrightarrow>
                res ! i \<in> set (requiredTargets g a) \<Longrightarrow> a \<in> set (take i res)"
    unfolding kahnInv_def by blast
  from this [OF j, of a] e bj have "a \<in> set (take j res)" by (simp add: requiredRel_def)
  then obtain i where "i < length (take j res)" and "take j res ! i = a"
    by (auto simp: in_set_conv_nth)
  then have "i < j" and "res ! i = a" by simp_all
  with j bj show ?thesis by blast
qed

lemma kahn_sound:
  assumes inv: "kahnInv g m [] res" and all: "set res = fmdom' (nodes g)"
    and nd: "noDangling g"
  shows "acyclic (requiredRel g)"
proof -
  define f where "f a = length (takeWhile (\<lambda>x. x \<noteq> a) res)" for a
  from inv have dist: "distinct res" unfolding kahnInv_def by simp
  have pos: "f (res ! j) = j" if "j < length res" for j
  proof -
    have "takeWhile (\<lambda>x. x \<noteq> res ! j) res = take j res"
    proof (rule takeWhile_eq_take_P_nth)
      fix i assume "i < j" and "i < length res"
      with that dist show "res ! i \<noteq> res ! j" by (simp add: nth_eq_iff_index_eq)
    next
      show "\<not> res ! j \<noteq> res ! j" by simp
    qed
    with that show ?thesis by (simp add: f_def)
  qed
  have "requiredRel g \<subseteq> inv_image less_than f"
  proof
    fix p assume p: "p \<in> requiredRel g"
    obtain a b where ab: "p = (a, b)" by (cases p)
    with p have "b \<in> set (requiredTargets g a)" and "a \<in> fmdom' (nodes g)"
      by (simp_all add: requiredRel_def)
    with nd have "b \<in> fmdom' (nodes g)" unfolding noDangling_def by blast
    with all have "b \<in> set res" by simp
    from kahn_order [OF inv p [unfolded ab] this] obtain i j where
      "i < j" "j < length res" "res ! i = a" "res ! j = b" by blast
    then have "f a < f b" using pos [of i] pos [of j] by auto
    then show "p \<in> inv_image less_than f" by (simp add: ab)
  qed
  moreover have "wf (inv_image less_than f)" by simp
  ultimately have "wf (requiredRel g)" by (rule wf_subset [rotated])
  then show ?thesis by (rule wf_acyclic)
qed

lemma sortResult_props:
  assumes wf: "graph_wf g" and vs: "validSched sc g"
  shows "distinct (sortResult sc g)" and "set (sortResult sc g) \<subseteq> keysOf g"
    and "\<And>k. k \<in> keysOf g \<Longrightarrow> remaining g (set (sortResult sc g)) k = 0 \<Longrightarrow> k \<in> set (sortResult sc g)"
    and "\<And>i a. i < length (sortResult sc g) \<Longrightarrow> a \<in> fmdom' (nodes g) \<Longrightarrow>
           sortResult sc g ! i \<in> set (requiredTargets g a) \<Longrightarrow> a \<in> set (take i (sortResult sc g))"
proof -
  from sortResult_inv [OF wf vs] obtain m where inv: "kahnInv g m [] (sortResult sc g)" ..
  from inv show "distinct (sortResult sc g)" and "set (sortResult sc g) \<subseteq> keysOf g"
    unfolding kahnInv_def by simp_all
  from inv show "\<And>k. k \<in> keysOf g \<Longrightarrow> remaining g (set (sortResult sc g)) k = 0 \<Longrightarrow> k \<in> set (sortResult sc g)"
    unfolding kahnInv_def by simp
  from inv show "\<And>i a. i < length (sortResult sc g) \<Longrightarrow> a \<in> fmdom' (nodes g) \<Longrightarrow>
           sortResult sc g ! i \<in> set (requiredTargets g a) \<Longrightarrow> a \<in> set (take i (sortResult sc g))"
    unfolding kahnInv_def by blast
qed

lemma topo_complete:
  assumes wf: "graph_wf g" and vs: "validSched sc g" and nd: "noDangling g"
    and ac: "acyclic (requiredRel g)"
  shows "TopologicalSort sc g = Inr (sortResult sc g) \<and> distinct (sortResult sc g) \<and>
         set (sortResult sc g) = fmdom' (nodes g)"
proof -
  from sortResult_inv [OF wf vs] obtain m where inv: "kahnInv g m [] (sortResult sc g)" ..
  have s: "set (sortResult sc g) = fmdom' (nodes g)" by (rule kahn_complete [OF wf nd ac inv])
  have d: "distinct (sortResult sc g)" by (rule sortResult_props (1) [OF wf vs])
  from distinct_card [OF d] s have "length (sortResult sc g) = len (nodes g)"
    by (simp add: len_def)
  with s d show ?thesis by (simp add: TopologicalSort_sortResult)
qed

lemma topo_success:
  assumes wf: "graph_wf g" and vs: "validSched sc g" and nd: "noDangling g"
    and ok: "TopologicalSort sc g = Inr order"
  shows "distinct order \<and> set order = fmdom' (nodes g) \<and> acyclic (requiredRel g)"
proof -
  from ok have o: "order = sortResult sc g" and l: "length (sortResult sc g) = len (nodes g)"
    by (auto simp: TopologicalSort_sortResult split: if_splits)
  from sortResult_inv [OF wf vs] obtain m where inv: "kahnInv g m [] (sortResult sc g)" ..
  have d: "distinct (sortResult sc g)" by (rule sortResult_props (1) [OF wf vs])
  have sub: "set (sortResult sc g) \<subseteq> fmdom' (nodes g)"
    using sortResult_props (2) [OF wf vs] keysOf_noDangling [OF nd] by simp
  have "card (set (sortResult sc g)) = card (fmdom' (nodes g))"
    using distinct_card [OF d] l by (simp add: len_def)
  with sub have s: "set (sortResult sc g) = fmdom' (nodes g)"
    by (intro card_subset_eq) simp_all
  from kahn_sound [OF inv s nd] d s o show ?thesis by simp
qed

lemma topo_cycle_fails:
  assumes "graph_wf g" and "validSched sc g" and "noDangling g"
    and "\<not> acyclic (requiredRel g)"
  shows "TopologicalSort sc g = Inl CircularDependency"
proof (cases "TopologicalSort sc g")
  case (Inl e)
  then show ?thesis by (auto simp: TopologicalSort_sortResult split: if_splits)
next
  case (Inr order)
  from topo_success [OF assms(1-3) Inr] assms(4) show ?thesis by simp
qed

lemma topo_order:
  assumes wf: "graph_wf g" and vs: "validSched sc g"
    and ok: "TopologicalSort sc g = Inr order"
    and e: "(a, b) \<in> requiredRel g" and b: "b \<in> set order"
  shows "\<exists>i j. i < j \<and> j < length order \<and> order ! i = a \<and> order ! j = b"
proof -
  from ok have o: "order = sortResult sc g"
    by (auto simp: TopologicalSort_sortResult split: if_splits)
  from sortResult_inv [OF wf vs] obtain m where inv: "kahnInv g m [] (sortResult sc g)" ..
  from kahn_order [OF inv e] b o show ?thesis by simp
qed

text \<open>The ids the loop emits do not depend on the order of the visits.\<close>

lemma sortResult_subset:
  assumes wf: "graph_wf g" and v1: "validSched sc1 g" and v2: "validSched sc2 g"
  shows "set (sortResult sc1 g) \<subseteq> set (sortResult sc2 g)"
proof -
  let ?r1 = "sortResult sc1 g" and ?r2 = "sortResult sc2 g"
  have "i < length ?r1 \<Longrightarrow> ?r1 ! i \<in> set ?r2" for i
  proof (induction i rule: less_induct)
    case (less i)
    have key: "?r1 ! i \<in> keysOf g"
      using sortResult_props (2) [OF wf v1] less.prems by auto
    have "remaining g (set ?r2) (?r1 ! i) = 0"
      unfolding remaining_zero_iff
    proof
      fix a assume a: "a \<in> fmdom' (nodes g) - set ?r2"
      show "?r1 ! i \<notin> set (requiredTargets g a)"
      proof
        assume "?r1 ! i \<in> set (requiredTargets g a)"
        from sortResult_props (4) [OF wf v1 less.prems _ this] a
        have "a \<in> set (take i ?r1)" by simp
        then obtain j where "j < i" and "j < length ?r1" and "?r1 ! j = a"
          by (auto simp: in_set_conv_nth)
        from less.IH [OF this(1,2)] this(3) a show False by simp
      qed
    qed
    from sortResult_props (3) [OF wf v2 key this] show ?case .
  qed
  then show ?thesis by (auto simp: in_set_conv_nth)
qed

lemma sortResult_mset:
  assumes wf: "graph_wf g" and v1: "validSched sc1 g" and v2: "validSched sc2 g"
  shows "mset (sortResult sc1 g) = mset (sortResult sc2 g)"
proof -
  have "set (sortResult sc1 g) = set (sortResult sc2 g)"
    using sortResult_subset [OF wf v1 v2] sortResult_subset [OF wf v2 v1] by blast
  then show ?thesis
    using sortResult_props (1) [OF wf v1] sortResult_props (1) [OF wf v2]
    by (simp add: set_eq_iff_mset_eq_distinct)
qed

lemma topo_schedule_independent:
  assumes wf: "graph_wf g" and v1: "validSched sc1 g" and v2: "validSched sc2 g"
    and ok: "TopologicalSort sc1 g = Inr order1"
  shows "\<exists>order2. TopologicalSort sc2 g = Inr order2 \<and> mset order2 = mset order1"
proof -
  from ok have o: "order1 = sortResult sc1 g" and l: "length (sortResult sc1 g) = len (nodes g)"
    by (auto simp: TopologicalSort_sortResult split: if_splits)
  have m: "mset (sortResult sc2 g) = mset (sortResult sc1 g)"
    by (rule sortResult_mset [OF wf v2 v1])
  then have "length (sortResult sc2 g) = length (sortResult sc1 g)"
    by (rule mset_eq_length)
  with l m o show ?thesis by (simp add: TopologicalSort_sortResult)
qed

lemma inDegreeOf_schedule_independent:
  assumes wf: "graph_wf g" and v1: "validSched sc1 g" and v2: "validSched sc2 g"
  shows "inDegreeOf sc1 g = inDegreeOf sc2 g"
proof (rule fmap_ext)
  fix k
  have look: "fmlookup m k = (if k \<in> fmdom' m then Some (degreeOf m k) else None)" for m :: InDegree
    by (auto simp: degreeOf_def fmlookup_dom'_iff split: option.splits)
  show "fmlookup (inDegreeOf sc1 g) k = fmlookup (inDegreeOf sc2 g) k"
    unfolding look [of "inDegreeOf sc1 g"] look [of "inDegreeOf sc2 g"]
    by (simp add: inDegreeOf_effect [OF wf v1] inDegreeOf_effect [OF wf v2])
qed

section \<open>TopologicalSort and ids that are no nodes\<close>

lemma requiredRel_danglingGraph: "requiredRel danglingGraph = {(''a'', ''x'')}"
  by (auto simp: requiredRel_def requiredTargets_def edgesOf_def danglingGraph_def requires_def
      split: if_splits)

text \<open>
  C2. \<open>TopologicalSort\<close> is claimed to succeed on every graph whose required edges are
  acyclic, also when a required edge targets an id that is no node. The graph below has
  one node \<open>a\<close> with one required edge to \<open>x\<close>, which is no node: its required edges
  are acyclic, and \<open>TopologicalSort\<close> answers \<open>circular dependency detected\<close> whatever
  the order of the visits. The second loop creates a counter for \<open>x\<close>, the main loop
  emits \<open>x\<close> after \<open>a\<close>, and the result has two ids for one node.
\<close>

theorem TopologicalSort_dangling_target_reported_as_cycle:
  "addAll [service ''a'' 3 [requires ''x'']] NewGraph = Inr danglingGraph \<and>
   graph_wf danglingGraph \<and> acyclic (requiredRel danglingGraph) \<and>
   validSched (danglingSched [''a'', ''x'']) danglingGraph \<and>
   validSched (danglingSched [''x'', ''a'']) danglingGraph \<and>
   TopologicalSort (danglingSched [''a'', ''x'']) danglingGraph = Inl CircularDependency \<and>
   TopologicalSort (danglingSched [''x'', ''a'']) danglingGraph = Inl CircularDependency"
proof -
  have "acyclic (requiredRel danglingGraph)"
    unfolding requiredRel_danglingGraph by (simp add: wf_acyclic)
  moreover have "addAll [service ''a'' 3 [requires ''x'']] NewGraph = Inr danglingGraph"
    by code_simp
  moreover have "graph_wf danglingGraph" by code_simp
  moreover have "validSched (danglingSched [''a'', ''x'']) danglingGraph" by code_simp
  moreover have "validSched (danglingSched [''x'', ''a'']) danglingGraph" by code_simp
  moreover have
    "TopologicalSort (danglingSched [''a'', ''x'']) danglingGraph = Inl CircularDependency"
    by code_simp
  moreover have
    "TopologicalSort (danglingSched [''x'', ''a'']) danglingGraph = Inl CircularDependency"
    by code_simp
  ultimately show ?thesis by blast
qed

lemma maskedCycle_edges:
  "(''b'', ''c'') \<in> requiredRel maskedCycleGraph \<and> (''c'', ''b'') \<in> requiredRel maskedCycleGraph"
  by (simp add: requiredRel_def requiredTargets_def edgesOf_def maskedCycleGraph_def requires_def)

text \<open>
  C4. \<open>TopologicalSort\<close> is claimed to fail on every graph whose required edges have a
  cycle. In the graph below \<open>b\<close> and \<open>c\<close> require each other, and \<open>a\<close> requires
  \<open>x\<close> and \<open>y\<close>, which are no nodes. The loop emits \<open>a\<close>, \<open>x\<close>, \<open>y\<close>: three ids
  for three nodes, so the length test passes and the call returns this list with no error.
\<close>

theorem TopologicalSort_cycle_masked_by_dangling_targets:
  "addAll [service ''a'' 3 [requires ''x'', requires ''y''], service ''b'' 3 [requires ''c''],
           service ''c'' 3 [requires ''b'']] NewGraph = Inr maskedCycleGraph \<and>
   graph_wf maskedCycleGraph \<and> validSched maskedCycleSched maskedCycleGraph \<and>
   \<not> acyclic (requiredRel maskedCycleGraph) \<and>
   TopologicalSort maskedCycleSched maskedCycleGraph = Inr [''a'', ''x'', ''y'']"
proof -
  have "(''b'', ''b'') \<in> (requiredRel maskedCycleGraph)\<^sup>+"
    using maskedCycle_edges by (meson trancl.simps)
  then have "\<not> acyclic (requiredRel maskedCycleGraph)" by (auto simp: acyclic_def)
  moreover have "addAll [service ''a'' 3 [requires ''x'', requires ''y''],
      service ''b'' 3 [requires ''c''], service ''c'' 3 [requires ''b'']] NewGraph
      = Inr maskedCycleGraph"
    by code_simp
  moreover have "graph_wf maskedCycleGraph" by code_simp
  moreover have "validSched maskedCycleSched maskedCycleGraph" by code_simp
  moreover have "TopologicalSort maskedCycleSched maskedCycleGraph = Inr [''a'', ''x'', ''y'']"
    by code_simp
  ultimately show ?thesis by blast
qed

text \<open>
  C3. Whenever \<open>TopologicalSort\<close> succeeds, every required edge between two nodes is
  claimed to have its source strictly before its target in the result. In the graph
  below \<open>b\<close> requires \<open>c\<close>, both are nodes, \<open>c\<close> requires itself and \<open>a\<close> requires
  \<open>x\<close>, which is no node. The call succeeds with \<open>a\<close>, \<open>b\<close>, \<open>x\<close>: the node \<open>c\<close>
  is not in the result at all.
\<close>

theorem TopologicalSort_success_omits_dependency:
  "addAll [service ''a'' 3 [requires ''x''], service ''b'' 3 [requires ''c''],
           service ''c'' 3 [requires ''c'']] NewGraph = Inr selfLoopGraph \<and>
   graph_wf selfLoopGraph \<and> validSched selfLoopSched selfLoopGraph \<and>
   TopologicalSort selfLoopSched selfLoopGraph = Inr [''a'', ''b'', ''x''] \<and>
   (''b'', ''c'') \<in> requiredRel selfLoopGraph \<and>
   ''b'' \<in> fmdom' (nodes selfLoopGraph) \<and> ''c'' \<in> fmdom' (nodes selfLoopGraph) \<and>
   ''c'' \<notin> set [''a'', ''b'', ''x'']"
proof -
  have "(''b'', ''c'') \<in> requiredRel selfLoopGraph"
    by (simp add: requiredRel_def requiredTargets_def edgesOf_def selfLoopGraph_def requires_def)
  moreover have "addAll [service ''a'' 3 [requires ''x''], service ''b'' 3 [requires ''c''],
      service ''c'' 3 [requires ''c'']] NewGraph = Inr selfLoopGraph"
    by code_simp
  moreover have "graph_wf selfLoopGraph" by code_simp
  moreover have "validSched selfLoopSched selfLoopGraph" by code_simp
  moreover have "TopologicalSort selfLoopSched selfLoopGraph = Inr [''a'', ''b'', ''x'']"
    by code_simp
  moreover have "''b'' \<in> fmdom' (nodes selfLoopGraph) \<and> ''c'' \<in> fmdom' (nodes selfLoopGraph)"
    by (simp add: selfLoopGraph_def)
  ultimately show ?thesis by simp
qed

section \<open>Properties of ValidateDependencies\<close>

lemma ValidateLayerDependency_None:
  "ValidateLayerDependency from to = None \<longleftrightarrow> \<not> from < to"
  by (simp add: ValidateLayerDependency_def split: option.splits)

lemma ValidateLayerDependency_Some:
  "ValidateLayerDependency from to = Some e \<Longrightarrow>
     (e = Panic ''index out of range'' \<and> from < 0) \<or> (\<exists>f t. e = LayerViolation f t)"
  by (auto simp: ValidateLayerDependency_def layerString_def layers_def
      split: if_splits option.splits)

lemma ValidateLayerDependency_Some_less:
  "ValidateLayerDependency from to = Some e \<Longrightarrow> from < to"
  by (simp add: ValidateLayerDependency_def split: if_splits)

lemma checkDeps_None:
  "checkDeps g a l deps = None \<longleftrightarrow> \<not> list_ex (badTarget g l) (targetsOf deps)"
proof (induction deps)
  case Nil
  then show ?case by (simp add: targetsOf_def)
next
  case (Cons dep deps)
  show ?case
  proof (cases "Required dep")
    case False
    with Cons show ?thesis by (simp add: targetsOf_def)
  next
    case True
    then have tg: "targetsOf (dep # deps) = Target dep # targetsOf deps"
      by (simp add: targetsOf_def)
    show ?thesis
    proof (cases "fmlookup (nodes g) (Target dep)")
      case None
      with True show ?thesis by (simp add: tg badTarget_def)
    next
      case (Some rb)
      show ?thesis
      proof (cases "l < Layer rb")
        case less: True
        then have "ValidateLayerDependency l (Layer rb) \<noteq> None"
          by (simp add: ValidateLayerDependency_None)
        then obtain e where "ValidateLayerDependency l (Layer rb) = Some e" by blast
        with True Some less show ?thesis by (simp add: tg badTarget_def)
      next
        case False
        then have "ValidateLayerDependency l (Layer rb) = None"
          by (simp add: ValidateLayerDependency_None)
        with True Some False Cons show ?thesis by (simp add: tg badTarget_def)
      qed
    qed
  qed
qed

lemma checkDeps_Some:
  "checkDeps g a l deps = Some err \<Longrightarrow>
     namesResource err a \<or> (err = Panic ''index out of range'' \<and> l < 0)"
proof (induction deps)
  case Nil
  then show ?case by simp
next
  case (Cons dep deps)
  then show ?case
    by (auto simp: inResource_def split: if_splits option.splits
        dest!: ValidateLayerDependency_Some)
qed

lemma targetsOf_edgesOf: "targetsOf (edgesOf g a) = requiredTargets g a"
  by (simp add: targetsOf_def requiredTargets_def)

lemma checkNodes_step:
  "checkNodes g (k # ks) =
     (if violates g k then
        (case fmlookup (nodes g) k of
           None \<Rightarrow> None
         | Some r \<Rightarrow> checkDeps g k (Layer r) (edgesOf g k))
      else checkNodes g ks)"
proof (cases "fmlookup (nodes g) k")
  case None
  then show ?thesis by (simp add: violates_def)
next
  case (Some r)
  show ?thesis
  proof (cases "checkDeps g k (Layer r) (edgesOf g k)")
    case None
    then have "\<not> violates g k"
      using Some by (simp add: violates_def checkDeps_None targetsOf_edgesOf)
    with None Some show ?thesis by simp
  next
    case (Some err)
    then have "checkDeps g k (Layer r) (edgesOf g k) \<noteq> None" by simp
    then have "violates g k"
      using \<open>fmlookup (nodes g) k = Some r\<close>
      by (simp add: violates_def checkDeps_None targetsOf_edgesOf)
    with Some \<open>fmlookup (nodes g) k = Some r\<close> show ?thesis by simp
  qed
qed

lemma checkNodes_None:
  "checkNodes g ks = None \<longleftrightarrow> (\<forall>a \<in> set ks. \<not> violates g a)"
proof (induction ks)
  case Nil
  then show ?case by simp
next
  case (Cons k ks)
  show ?case
  proof (cases "violates g k")
    case True
    then obtain r where r: "fmlookup (nodes g) k = Some r"
      and "list_ex (badTarget g (Layer r)) (requiredTargets g k)"
      by (auto simp: violates_def split: option.splits)
    then have "checkDeps g k (Layer r) (edgesOf g k) \<noteq> None"
      by (simp add: checkDeps_None targetsOf_edgesOf)
    with True r show ?thesis by (simp only: checkNodes_step) auto
  next
    case False
    with Cons show ?thesis by (simp only: checkNodes_step) simp
  qed
qed

lemma checkNodes_Some:
  "checkNodes g ks = Some err \<Longrightarrow>
     \<exists>pre a post r. ks = pre @ a # post \<and> (\<forall>x \<in> set pre. \<not> violates g x) \<and> violates g a \<and>
        fmlookup (nodes g) a = Some r \<and>
        (namesResource err a \<or> (err = Panic ''index out of range'' \<and> Layer r < 0))"
proof (induction ks)
  case Nil
  then show ?case by simp
next
  case (Cons k ks)
  show ?case
  proof (cases "violates g k")
    case True
    then obtain r where r: "fmlookup (nodes g) k = Some r"
      and bad: "list_ex (badTarget g (Layer r)) (requiredTargets g k)"
      by (auto simp: violates_def split: option.splits)
    from Cons.prems True r have "checkDeps g k (Layer r) (edgesOf g k) = Some err"
      by (simp only: checkNodes_step) simp
    from checkDeps_Some [OF this] True r
    have "k # ks = [] @ k # ks \<and> (\<forall>x \<in> set []. \<not> violates g x) \<and> violates g k \<and>
        fmlookup (nodes g) k = Some r \<and>
        (namesResource err k \<or> (err = Panic ''index out of range'' \<and> Layer r < 0))"
      by simp
    then show ?thesis by blast
  next
    case False
    then have "checkNodes g ks = Some err"
      using Cons.prems by (simp only: checkNodes_step) simp
    from Cons.IH [OF this] obtain pre a post r where
      "ks = pre @ a # post" "\<forall>x \<in> set pre. \<not> violates g x" "violates g a"
      "fmlookup (nodes g) a = Some r"
      "namesResource err a \<or> (err = Panic ''index out of range'' \<and> Layer r < 0)"
      by blast
    with False have "k # ks = (k # pre) @ a # post \<and> (\<forall>x \<in> set (k # pre). \<not> violates g x) \<and>
        violates g a \<and> fmlookup (nodes g) a = Some r \<and>
        (namesResource err a \<or> (err = Panic ''index out of range'' \<and> Layer r < 0))"
      by simp
    then show ?thesis by blast
  qed
qed

lemma layersRespected_no_violation:
  assumes "layersRespected g"
  shows "noDangling g" and "\<not> violates g a"
proof -
  have edge: "b \<in> set (requiredTargets g a) \<Longrightarrow> fmlookup (nodes g) a = Some ra \<Longrightarrow>
      \<exists>rb. fmlookup (nodes g) b = Some rb \<and> Layer rb \<le> Layer ra" for a b ra
  proof -
    assume b: "b \<in> set (requiredTargets g a)" and a: "fmlookup (nodes g) a = Some ra"
    then have "(a, b) \<in> requiredRel g" by (simp add: requiredRel_def fmlookup_dom'_iff)
    with assms a show ?thesis unfolding layersRespected_def by fastforce
  qed
  show "noDangling g"
    unfolding noDangling_def
  proof (intro ballI subsetI)
    fix a b assume "a \<in> fmdom' (nodes g)" and "b \<in> set (requiredTargets g a)"
    then show "b \<in> fmdom' (nodes g)" using edge [of b a] by (auto simp: fmlookup_dom'_iff)
  qed
  show "\<not> violates g a"
  proof (cases "fmlookup (nodes g) a")
    case None
    then show ?thesis by (simp add: violates_def)
  next
    case (Some ra)
    have "\<not> badTarget g (Layer ra) b" if "b \<in> set (requiredTargets g a)" for b
      using edge [OF that Some] by (auto simp: badTarget_def)
    then show ?thesis by (simp add: violates_def Some list_ex_iff)
  qed
qed

lemma TopologicalSort_fails_circular:
  "(\<forall>order. TopologicalSort sc g \<noteq> Inr order) \<longleftrightarrow> TopologicalSort sc g = Inl CircularDependency"
  by (auto simp: TopologicalSort_sortResult)

text \<open>
  C8, as the code has it. When \<open>TopologicalSort\<close> fails, \<open>ValidateDependencies\<close>
  returns its cycle error. On a graph whose layers are not negative, with a required
  edge from \<open>a\<close> to \<open>b\<close>, both nodes, where the layer of \<open>a\<close> is below the layer
  of \<open>b\<close>: when \<open>TopologicalSort\<close> succeeds, \<open>ValidateDependencies\<close> returns an
  error that names the first node, in the order the node map is visited, that violates
  the layer check; so it names \<open>a\<close> when no other node violates it. When every required
  edge joins two nodes with the layer of the source not below the layer of the target,
  and the required edges are acyclic, it returns no error.
\<close>

theorem ValidateDependencies_layer_check:
  assumes wf: "graph_wf g" and vs: "validSched sc g" and ks: "rangeOrder (nodes g) ks"
  shows
    "((\<forall>order. TopologicalSort sc g \<noteq> Inr order)
        \<longrightarrow> ValidateDependencies sc ks g = Some CircularDependency) \<and>
     ((a, b) \<in> requiredRel g \<and> fmlookup (nodes g) a = Some ra \<and>
        fmlookup (nodes g) b = Some rb \<and> Layer ra < Layer rb \<and> nonNegativeLayers g \<and>
        (\<exists>order. TopologicalSort sc g = Inr order)
        \<longrightarrow> (\<exists>pre v post err. ks = pre @ v # post \<and> (\<forall>x \<in> set pre. \<not> violates g x) \<and>
               violates g v \<and> ValidateDependencies sc ks g = Some err \<and>
               namesResource err v)) \<and>
     ((a, b) \<in> requiredRel g \<and> fmlookup (nodes g) a = Some ra \<and>
        fmlookup (nodes g) b = Some rb \<and> Layer ra < Layer rb \<and> nonNegativeLayers g \<and>
        (\<exists>order. TopologicalSort sc g = Inr order) \<and> (\<forall>v. violates g v \<longrightarrow> v = a)
        \<longrightarrow> (\<exists>err. ValidateDependencies sc ks g = Some err \<and> namesResource err a)) \<and>
     (layersRespected g \<and> acyclic (requiredRel g) \<longrightarrow> ValidateDependencies sc ks g = None)"
proof -
  have first: "\<exists>pre v post err. ks = pre @ v # post \<and> (\<forall>x \<in> set pre. \<not> violates g x) \<and>
               violates g v \<and> ValidateDependencies sc ks g = Some err \<and> namesResource err v"
    if h: "(a, b) \<in> requiredRel g \<and> fmlookup (nodes g) a = Some ra \<and>
        fmlookup (nodes g) b = Some rb \<and> Layer ra < Layer rb \<and> nonNegativeLayers g \<and>
        (\<exists>order. TopologicalSort sc g = Inr order)"
  proof -
    from h have "badTarget g (Layer ra) b" and "b \<in> set (requiredTargets g a)"
      by (simp_all add: badTarget_def requiredRel_def)
    then have va: "violates g a" using h by (auto simp: violates_def list_ex_iff)
    from h ks have "a \<in> set ks" by (auto simp: rangeOrder_def fmlookup_dom'_iff)
    with va have "checkNodes g ks \<noteq> None" by (auto simp: checkNodes_None)
    then obtain err where e: "checkNodes g ks = Some err" by auto
    from checkNodes_Some [OF e] obtain pre v post rv where
      sp: "ks = pre @ v # post" and np: "\<forall>x \<in> set pre. \<not> violates g x" and v: "violates g v"
      and rv: "fmlookup (nodes g) v = Some rv"
      and n: "namesResource err v \<or> (err = Panic ''index out of range'' \<and> Layer rv < 0)"
      by blast
    from h have "fmpred (\<lambda>rid r. 0 \<le> Layer r) (nodes g)" by (simp add: nonNegativeLayers_def)
    from fmpredD [OF this rv] have "0 \<le> Layer rv" .
    with n have nm: "namesResource err v" by auto
    from h e have "ValidateDependencies sc ks g = Some err"
      by (auto simp: ValidateDependencies_def)
    with sp np v nm show ?thesis by blast
  qed
  have c1: "(\<forall>order. TopologicalSort sc g \<noteq> Inr order)
        \<longrightarrow> ValidateDependencies sc ks g = Some CircularDependency"
    by (auto simp: TopologicalSort_fails_circular ValidateDependencies_def)
  have c2: "(a, b) \<in> requiredRel g \<and> fmlookup (nodes g) a = Some ra \<and>
        fmlookup (nodes g) b = Some rb \<and> Layer ra < Layer rb \<and> nonNegativeLayers g \<and>
        (\<exists>order. TopologicalSort sc g = Inr order)
        \<longrightarrow> (\<exists>pre v post err. ks = pre @ v # post \<and> (\<forall>x \<in> set pre. \<not> violates g x) \<and>
               violates g v \<and> ValidateDependencies sc ks g = Some err \<and>
               namesResource err v)"
    using first by blast
  have c3: "(a, b) \<in> requiredRel g \<and> fmlookup (nodes g) a = Some ra \<and>
        fmlookup (nodes g) b = Some rb \<and> Layer ra < Layer rb \<and> nonNegativeLayers g \<and>
        (\<exists>order. TopologicalSort sc g = Inr order) \<and> (\<forall>v. violates g v \<longrightarrow> v = a)
        \<longrightarrow> (\<exists>err. ValidateDependencies sc ks g = Some err \<and> namesResource err a)"
  proof
    assume h: "(a, b) \<in> requiredRel g \<and> fmlookup (nodes g) a = Some ra \<and>
        fmlookup (nodes g) b = Some rb \<and> Layer ra < Layer rb \<and> nonNegativeLayers g \<and>
        (\<exists>order. TopologicalSort sc g = Inr order) \<and> (\<forall>v. violates g v \<longrightarrow> v = a)"
    then have "(a, b) \<in> requiredRel g \<and> fmlookup (nodes g) a = Some ra \<and>
        fmlookup (nodes g) b = Some rb \<and> Layer ra < Layer rb \<and> nonNegativeLayers g \<and>
        (\<exists>order. TopologicalSort sc g = Inr order)"
      by blast
    from first [OF this] obtain v err where "violates g v"
      and "ValidateDependencies sc ks g = Some err" and "namesResource err v"
      by blast
    moreover from this(1) h have "v = a" by blast
    ultimately show "\<exists>err. ValidateDependencies sc ks g = Some err \<and> namesResource err a"
      by blast
  qed
  have c4: "layersRespected g \<and> acyclic (requiredRel g) \<longrightarrow> ValidateDependencies sc ks g = None"
  proof
    assume h: "layersRespected g \<and> acyclic (requiredRel g)"
    then have nd: "noDangling g" and nv: "\<And>x. \<not> violates g x"
      using layersRespected_no_violation by blast+
    from topo_complete [OF wf vs nd] h have "TopologicalSort sc g = Inr (sortResult sc g)"
      by simp
    moreover have "checkNodes g ks = None" using nv by (simp add: checkNodes_None)
    ultimately show "ValidateDependencies sc ks g = None"
      by (simp add: ValidateDependencies_def)
  qed
  from c1 c2 c3 c4 show ?thesis by (intro conjI)
qed

text \<open>
  C8 as stated fails: \<open>a\<close> (platform) requires \<open>b\<close> (application) and \<open>b\<close>
  requires \<open>a\<close>. The cycle check comes first and its error names no resource.
\<close>

theorem ValidateDependencies_cycle_hides_layer_violation:
  "addAll [service ''a'' 1 [requires ''b''], service ''b'' 3 [requires ''a'']] NewGraph
     = Inr cyclicLayerGraph \<and>
   graph_wf cyclicLayerGraph \<and> validSched twoNodeSched cyclicLayerGraph \<and>
   rangeOrder (nodes cyclicLayerGraph) [''a'', ''b''] \<and>
   (''a'', ''b'') \<in> requiredRel cyclicLayerGraph \<and>
   map_option Layer (fmlookup (nodes cyclicLayerGraph) ''a'') = Some 1 \<and>
   map_option Layer (fmlookup (nodes cyclicLayerGraph) ''b'') = Some 3 \<and>
   ValidateDependencies twoNodeSched [''a'', ''b''] cyclicLayerGraph = Some CircularDependency \<and>
   \<not> namesResource CircularDependency ''a''"
proof -
  have "(''a'', ''b'') \<in> requiredRel cyclicLayerGraph"
    by (simp add: requiredRel_def requiredTargets_def edgesOf_def cyclicLayerGraph_def
        requires_def)
  moreover have "addAll [service ''a'' 1 [requires ''b''], service ''b'' 3 [requires ''a'']]
      NewGraph = Inr cyclicLayerGraph"
    by code_simp
  moreover have "graph_wf cyclicLayerGraph" by code_simp
  moreover have "validSched twoNodeSched cyclicLayerGraph" by code_simp
  moreover have "rangeOrder (nodes cyclicLayerGraph) [''a'', ''b'']" by code_simp
  moreover have "map_option Layer (fmlookup (nodes cyclicLayerGraph) ''a'') = Some 1"
    by code_simp
  moreover have "map_option Layer (fmlookup (nodes cyclicLayerGraph) ''b'') = Some 3"
    by code_simp
  moreover have "ValidateDependencies twoNodeSched [''a'', ''b''] cyclicLayerGraph
      = Some CircularDependency"
    by code_simp
  ultimately show ?thesis by simp
qed

lemma requiredRel_upwardGraph: "requiredRel upwardGraph = {(''a'', ''b'')}"
  by (auto simp: requiredRel_def requiredTargets_def edgesOf_def upwardGraph_def requires_def
      split: if_splits)

lemma requiredRel_downwardGraph: "requiredRel downwardGraph = {(''a'', ''b'')}"
  by (auto simp: requiredRel_def requiredTargets_def edgesOf_def downwardGraph_def requires_def
      split: if_splits)

lemma upwardGraph_only_violator: "violates upwardGraph v \<Longrightarrow> v = ''a''"
  by (auto simp: violates_def upwardGraph_def requiredTargets_def edgesOf_def service_def
      split: option.splits if_splits)

theorem ValidateDependencies_layer_check_witness:
  "(graph_wf twoViolatorGraph \<and> validSched threeNodeSched twoViolatorGraph \<and>
    rangeOrder (nodes twoViolatorGraph) [''b'', ''a'', ''c''] \<and>
    (''a'', ''c'') \<in> requiredRel twoViolatorGraph \<and>
    fmlookup (nodes twoViolatorGraph) ''a'' = Some (service ''a'' 1 [requires ''c'']) \<and>
    fmlookup (nodes twoViolatorGraph) ''c'' = Some (service ''c'' 3 []) \<and>
    Layer (service ''a'' 1 [requires ''c'']) < Layer (service ''c'' 3 []) \<and>
    nonNegativeLayers twoViolatorGraph \<and>
    TopologicalSort threeNodeSched twoViolatorGraph = Inr [''a'', ''b'', ''c''] \<and>
    (\<exists>pre v post err. [''b'', ''a'', ''c''] = pre @ v # post \<and>
       (\<forall>x \<in> set pre. \<not> violates twoViolatorGraph x) \<and> violates twoViolatorGraph v \<and>
       ValidateDependencies threeNodeSched [''b'', ''a'', ''c''] twoViolatorGraph = Some err \<and>
       namesResource err v) \<and>
    ValidateDependencies threeNodeSched [''b'', ''a'', ''c''] twoViolatorGraph
      = Some (InResource ''b'' (LayerViolation ''infrastructure'' ''application'')) \<and>
    ValidateDependencies threeNodeSched [''a'', ''b'', ''c''] twoViolatorGraph
      = Some (InResource ''a'' (LayerViolation ''platform'' ''application''))) \<and>
   (graph_wf cyclicLayerGraph \<and> validSched twoNodeSched cyclicLayerGraph \<and>
    rangeOrder (nodes cyclicLayerGraph) [''a'', ''b''] \<and>
    TopologicalSort twoNodeSched cyclicLayerGraph = Inl CircularDependency \<and>
    ValidateDependencies twoNodeSched [''a'', ''b''] cyclicLayerGraph
      = Some CircularDependency) \<and>
   (graph_wf upwardGraph \<and> validSched twoNodeSched upwardGraph \<and>
    rangeOrder (nodes upwardGraph) [''b'', ''a''] \<and>
    (''a'', ''b'') \<in> requiredRel upwardGraph \<and>
    fmlookup (nodes upwardGraph) ''a'' = Some (service ''a'' 1 [requires ''b'']) \<and>
    fmlookup (nodes upwardGraph) ''b'' = Some (service ''b'' 3 []) \<and>
    Layer (service ''a'' 1 [requires ''b'']) < Layer (service ''b'' 3 []) \<and>
    nonNegativeLayers upwardGraph \<and>
    TopologicalSort twoNodeSched upwardGraph = Inr [''a'', ''b''] \<and>
    (\<exists>err. ValidateDependencies twoNodeSched [''b'', ''a''] upwardGraph = Some err \<and>
       namesResource err ''a'') \<and>
    ValidateDependencies twoNodeSched [''b'', ''a''] upwardGraph
      = Some (InResource ''a'' (LayerViolation ''platform'' ''application''))) \<and>
   (graph_wf downwardGraph \<and> validSched twoNodeSched downwardGraph \<and>
    rangeOrder (nodes downwardGraph) [''b'', ''a''] \<and>
    layersRespected downwardGraph \<and> acyclic (requiredRel downwardGraph) \<and>
    ValidateDependencies twoNodeSched [''b'', ''a''] downwardGraph = None)"
proof -
  have t1: "graph_wf twoViolatorGraph" by code_simp
  have t2: "validSched threeNodeSched twoViolatorGraph" by code_simp
  have t3: "rangeOrder (nodes twoViolatorGraph) [''b'', ''a'', ''c'']" by code_simp
  have t4: "(''a'', ''c'') \<in> requiredRel twoViolatorGraph"
    by (simp add: requiredRel_def requiredTargets_def edgesOf_def twoViolatorGraph_def
        requires_def)
  have t5: "fmlookup (nodes twoViolatorGraph) ''a'' = Some (service ''a'' 1 [requires ''c''])"
    by (simp add: twoViolatorGraph_def)
  have t6: "fmlookup (nodes twoViolatorGraph) ''c'' = Some (service ''c'' 3 [])"
    by (simp add: twoViolatorGraph_def)
  have t7: "Layer (service ''a'' 1 [requires ''c'']) < Layer (service ''c'' 3 [])"
    by (simp add: service_def)
  have t8: "nonNegativeLayers twoViolatorGraph" by code_simp
  have t9: "TopologicalSort threeNodeSched twoViolatorGraph = Inr [''a'', ''b'', ''c'']"
    by code_simp
  have t10: "ValidateDependencies threeNodeSched [''b'', ''a'', ''c''] twoViolatorGraph
      = Some (InResource ''b'' (LayerViolation ''infrastructure'' ''application''))"
    by code_simp
  have t11: "ValidateDependencies threeNodeSched [''a'', ''b'', ''c''] twoViolatorGraph
      = Some (InResource ''a'' (LayerViolation ''platform'' ''application''))"
    by code_simp
  from t9 have t9e: "\<exists>order. TopologicalSort threeNodeSched twoViolatorGraph = Inr order" ..
  from t4 t5 t6 t7 t8 t9e have th: "(''a'', ''c'') \<in> requiredRel twoViolatorGraph \<and>
      fmlookup (nodes twoViolatorGraph) ''a'' = Some (service ''a'' 1 [requires ''c'']) \<and>
      fmlookup (nodes twoViolatorGraph) ''c'' = Some (service ''c'' 3 []) \<and>
      Layer (service ''a'' 1 [requires ''c'']) < Layer (service ''c'' 3 []) \<and>
      nonNegativeLayers twoViolatorGraph \<and>
      (\<exists>order. TopologicalSort threeNodeSched twoViolatorGraph = Inr order)"
    by (intro conjI)
  note tt = ValidateDependencies_layer_check [OF t1 t2 t3,
      of "''a''" "''c''" "service ''a'' 1 [requires ''c'']" "service ''c'' 3 []"]
  from mp [OF conjunct1 [OF conjunct2 [OF tt]] th]
  have two: "\<exists>pre v post err. [''b'', ''a'', ''c''] = pre @ v # post \<and>
       (\<forall>x \<in> set pre. \<not> violates twoViolatorGraph x) \<and> violates twoViolatorGraph v \<and>
       ValidateDependencies threeNodeSched [''b'', ''a'', ''c''] twoViolatorGraph = Some err \<and>
       namesResource err v" .
  have c1: "graph_wf cyclicLayerGraph" by code_simp
  have c2: "validSched twoNodeSched cyclicLayerGraph" by code_simp
  have c3: "rangeOrder (nodes cyclicLayerGraph) [''a'', ''b'']" by code_simp
  have c4: "TopologicalSort twoNodeSched cyclicLayerGraph = Inl CircularDependency"
    by code_simp
  then have c4n: "\<forall>order. TopologicalSort twoNodeSched cyclicLayerGraph \<noteq> Inr order" by simp
  from mp [OF conjunct1 [OF ValidateDependencies_layer_check [OF c1 c2 c3]] c4n]
  have cyc: "ValidateDependencies twoNodeSched [''a'', ''b''] cyclicLayerGraph
      = Some CircularDependency" .
  have u1: "graph_wf upwardGraph" by code_simp
  have u2: "validSched twoNodeSched upwardGraph" by code_simp
  have u3: "rangeOrder (nodes upwardGraph) [''b'', ''a'']" by code_simp
  have u4: "(''a'', ''b'') \<in> requiredRel upwardGraph" by (simp add: requiredRel_upwardGraph)
  have u5: "fmlookup (nodes upwardGraph) ''a'' = Some (service ''a'' 1 [requires ''b''])"
    by (simp add: upwardGraph_def)
  have u6: "fmlookup (nodes upwardGraph) ''b'' = Some (service ''b'' 3 [])"
    by (simp add: upwardGraph_def)
  have u7: "Layer (service ''a'' 1 [requires ''b'']) < Layer (service ''b'' 3 [])"
    by (simp add: service_def)
  have u8: "ValidateDependencies twoNodeSched [''b'', ''a''] upwardGraph
      = Some (InResource ''a'' (LayerViolation ''platform'' ''application''))"
    by code_simp
  have u9: "nonNegativeLayers upwardGraph" by code_simp
  have u10: "\<forall>v. violates upwardGraph v \<longrightarrow> v = ''a''"
    using upwardGraph_only_violator by blast
  have u11: "TopologicalSort twoNodeSched upwardGraph = Inr [''a'', ''b'']" by code_simp
  then have u11e: "\<exists>order. TopologicalSort twoNodeSched upwardGraph = Inr order" ..
  from u4 u5 u6 u7 u9 u11e u10 have uh: "(''a'', ''b'') \<in> requiredRel upwardGraph \<and>
      fmlookup (nodes upwardGraph) ''a'' = Some (service ''a'' 1 [requires ''b'']) \<and>
      fmlookup (nodes upwardGraph) ''b'' = Some (service ''b'' 3 []) \<and>
      Layer (service ''a'' 1 [requires ''b'']) < Layer (service ''b'' 3 []) \<and>
      nonNegativeLayers upwardGraph \<and>
      (\<exists>order. TopologicalSort twoNodeSched upwardGraph = Inr order) \<and>
      (\<forall>v. violates upwardGraph v \<longrightarrow> v = ''a'')"
    by (intro conjI)
  note ut = ValidateDependencies_layer_check [OF u1 u2 u3,
      of "''a''" "''b''" "service ''a'' 1 [requires ''b'']" "service ''b'' 3 []"]
  from mp [OF conjunct1 [OF conjunct2 [OF conjunct2 [OF ut]]] uh]
  have names: "\<exists>err. ValidateDependencies twoNodeSched [''b'', ''a''] upwardGraph = Some err \<and>
       namesResource err ''a''" .
  have d1: "graph_wf downwardGraph" by code_simp
  have d2: "validSched twoNodeSched downwardGraph" by code_simp
  have d3: "rangeOrder (nodes downwardGraph) [''b'', ''a'']" by code_simp
  have d4: "layersRespected downwardGraph"
    unfolding layersRespected_def requiredRel_downwardGraph
    by (simp add: downwardGraph_def service_def)
  have d5: "acyclic (requiredRel downwardGraph)"
    unfolding requiredRel_downwardGraph by (simp add: wf_acyclic)
  from d4 d5 have dh: "layersRespected downwardGraph \<and> acyclic (requiredRel downwardGraph)" ..
  from mp [OF conjunct2 [OF conjunct2 [OF conjunct2
      [OF ValidateDependencies_layer_check [OF d1 d2 d3]]]] dh]
  have down: "ValidateDependencies twoNodeSched [''b'', ''a''] downwardGraph = None" .
  from t1 t2 t3 t4 t5 t6 t7 t8 t9 two t10 t11 c1 c2 c3 c4 cyc
    u1 u2 u3 u4 u5 u6 u7 u9 u11 names u8 d1 d2 d3 d4 d5 down
  show ?thesis by (intro conjI)
qed

section \<open>Properties of the state store\<close>

lemma SaveState_cases:
  assumes "SaveState marshal w = (err, w1)"
  shows "manager w1 = manager w \<and> clock w1 = clock w \<and>
         (case err of
            None \<Rightarrow> disk w1 = (disk w)\<lparr>content := Some (state (manager w)),
                                      writes := Suc (writes (disk w))\<rparr>
          | Some e \<Rightarrow> w1 = w)"
  using assms by (auto simp: SaveState_def split: option.splits if_splits)

lemma MarkApplied_state:
  assumes "marshal (ConfigValue (Config r)) = Some bytes"
    and "MarkApplied marshal r w = (err, w1)"
  shows "GetState (manager w1) (ID r) =
           Some \<lparr>Status = StateApplied, LastApplied = clock w, Checksum = bytes,
                 Metadata = fmupd ''config'' (ConfigValue (Config r)) fmempty\<rparr>"
proof -
  let ?w = "(w\<lparr>clock := Suc (clock w)\<rparr>)\<lparr>manager := SetState (ID r)
              \<lparr>Status = StateApplied, LastApplied = clock w, Checksum = bytes,
               Metadata = fmupd ''config'' (ConfigValue (Config r)) fmempty\<rparr> (manager w)\<rparr>"
  from assms have "SaveState marshal ?w = (err, w1)"
    by (simp add: MarkApplied_def timeNow_def)
  from SaveState_cases [OF this] have "manager w1 = manager ?w" by simp
  then show ?thesis by (simp add: GetState_def SetState_def)
qed

text \<open>
  C5. \<open>DetectDrift\<close> returns false (with no error) exactly when the resource has a
  state entry whose metadata holds a \<open>config\<close> snapshot and \<open>json.Marshal\<close> gives the
  same bytes for the resource's configuration and for the snapshot. It returns true when
  there is no entry, and when the entry has no snapshot. After \<open>MarkApplied\<close> has
  written its entry (it does so once the configuration has been marshalled, whatever
  \<open>SaveState\<close> returns then), \<open>DetectDrift\<close> on the same resource returns false.
\<close>

theorem DetectDrift_compares_snapshot:
  "(DetectDrift marshal s r = Inr False \<longleftrightarrow>
      (\<exists>st snapshot bytes. GetState s (ID r) = Some st \<and>
         fmlookup (Metadata st) ''config'' = Some snapshot \<and>
         marshal (ConfigValue (Config r)) = Some bytes \<and> marshal snapshot = Some bytes)) \<and>
   (GetState s (ID r) = None \<longrightarrow> DetectDrift marshal s r = Inr True) \<and>
   (\<forall>st. GetState s (ID r) = Some st \<and> fmlookup (Metadata st) ''config'' = None
      \<longrightarrow> DetectDrift marshal s r = Inr True) \<and>
   (\<forall>bytes err w1. marshal (ConfigValue (Config r)) = Some bytes \<and>
      MarkApplied marshal r w = (err, w1)
      \<longrightarrow> DetectDrift marshal (manager w1) r = Inr False)"
proof (intro conjI allI impI)
  show "DetectDrift marshal s r = Inr False \<longleftrightarrow>
      (\<exists>st snapshot bytes. GetState s (ID r) = Some st \<and>
         fmlookup (Metadata st) ''config'' = Some snapshot \<and>
         marshal (ConfigValue (Config r)) = Some bytes \<and> marshal snapshot = Some bytes)"
    by (auto simp: DetectDrift_def split: option.splits)
next
  assume "GetState s (ID r) = None"
  then show "DetectDrift marshal s r = Inr True" by (simp add: DetectDrift_def)
next
  fix st assume "GetState s (ID r) = Some st \<and> fmlookup (Metadata st) ''config'' = None"
  then show "DetectDrift marshal s r = Inr True" by (simp add: DetectDrift_def)
next
  fix bytes err w1
  assume h: "marshal (ConfigValue (Config r)) = Some bytes \<and> MarkApplied marshal r w = (err, w1)"
  then have "GetState (manager w1) (ID r) =
           Some \<lparr>Status = StateApplied, LastApplied = clock w, Checksum = bytes,
                 Metadata = fmupd ''config'' (ConfigValue (Config r)) fmempty\<rparr>"
    using MarkApplied_state by blast
  with h show "DetectDrift marshal (manager w1) r = Inr False"
    by (simp add: DetectDrift_def)
qed








theorem DetectDrift_compares_snapshot_witness:
  "GetState (manager (freshWorld nginxGraph)) (ID (package ''nginx'' ''latest'')) = None \<and>
   DetectDrift encode (manager (freshWorld nginxGraph)) (package ''nginx'' ''latest'') = Inr True \<and>
   encode (ConfigValue (Config (package ''nginx'' ''latest'')))
     = Some ''name:nginx;version:latest;manager:apt;'' \<and>
   DetectDrift encode
     (manager (snd (MarkApplied encode (package ''nginx'' ''latest'') (freshWorld nginxGraph))))
     (package ''nginx'' ''latest'') = Inr False \<and>
   DetectDrift encode
     (manager (snd (MarkApplied encode (package ''nginx'' ''latest'') (freshWorld nginxGraph))))
     (package ''nginx'' ''1.24'') = Inr True \<and>
   fmlookup (Metadata (the (GetState
     (manager (snd (MarkFailed encode (package ''nginx'' ''latest'') ''timeout''
        (freshWorld nginxGraph)))) (ID (package ''nginx'' ''latest''))))) ''config'' = None \<and>
   DetectDrift encode
     (manager (snd (MarkFailed encode (package ''nginx'' ''latest'') ''timeout''
        (freshWorld nginxGraph))))
     (package ''nginx'' ''latest'') = Inr True"
proof -
  let ?r = "package ''nginx'' ''latest''"
  let ?w = "freshWorld nginxGraph :: Cfg World"
  let ?wf = "snd (MarkFailed encode ?r ''timeout'' ?w)"
  have a: "GetState (manager ?w) (ID ?r) = None" by code_simp
  have b: "encode (ConfigValue (Config ?r)) = Some ''name:nginx;version:latest;manager:apt;''"
    by code_simp
  have c: "MarkApplied encode ?r ?w = (fst (MarkApplied encode ?r ?w), snd (MarkApplied encode ?r ?w))"
    by simp
  have d: "DetectDrift encode (manager (snd (MarkApplied encode ?r ?w))) (package ''nginx'' ''1.24'')
      = Inr True"
    by code_simp
  have e: "GetState (manager ?wf) (ID ?r) = Some (the (GetState (manager ?wf) (ID ?r)))"
    by code_simp
  have f: "fmlookup (Metadata (the (GetState (manager ?wf) (ID ?r)))) ''config'' = None"
    by code_simp
  from DetectDrift_compares_snapshot [of encode "manager ?w" ?r ?w] a b c
  have 1: "DetectDrift encode (manager ?w) ?r = Inr True"
    and 2: "DetectDrift encode (manager (snd (MarkApplied encode ?r ?w))) ?r = Inr False"
    by blast+
  from DetectDrift_compares_snapshot [of encode "manager ?wf" ?r ?w] e f
  have 3: "DetectDrift encode (manager ?wf) ?r = Inr True" by blast
  from a b d f 1 2 3 show ?thesis by blast
qed


section \<open>Properties of the planner\<close>

lemma planResource_ok:
  "\<not> driftFails marshal (stateManager p) r \<Longrightarrow>
     planResource marshal p r = Inr (expectedAction marshal (stateManager p) r)"
  by (cases "DetectDrift marshal (stateManager p) r")
    (auto simp: planResource_def expectedAction_def driftFails_def split: option.splits)

lemma planResource_fails:
  "driftFails marshal (stateManager p) r \<Longrightarrow> \<exists>e. planResource marshal p r = Inl e"
  by (cases "DetectDrift marshal (stateManager p) r")
    (auto simp: planResource_def driftFails_def split: option.splits)

lemma planActions_step:
  "planActions marshal p (k # ks) acc =
     (if plannable marshal p k then planActions marshal p ks (acc @ [plannedAction marshal p k])
      else Inl (case GetResource (plannerGraph p) k of
                  None \<Rightarrow> ResourceNotFoundInGraph k
                | Some r \<Rightarrow> wrap (''failed to plan resource '' @ k)
                             (projl (planResource marshal p r))))"
proof (cases "GetResource (plannerGraph p) k")
  case None
  then show ?thesis by (simp add: plannable_def)
next
  case (Some r)
  show ?thesis
  proof (cases "driftFails marshal (stateManager p) r")
    case True
    from planResource_fails [OF this] obtain e where "planResource marshal p r = Inl e" ..
    with True Some show ?thesis by (simp add: plannable_def)
  next
    case False
    from planResource_ok [OF this] False Some show ?thesis
      by (simp add: plannable_def plannedAction_def)
  qed
qed

lemma planActions_Inr_iff:
  "planActions marshal p ks acc = Inr actions \<longleftrightarrow>
     (\<forall>k \<in> set ks. plannable marshal p k) \<and> actions = acc @ map (plannedAction marshal p) ks"
proof (induction ks arbitrary: acc)
  case Nil
  then show ?case by auto
next
  case (Cons k ks)
  show ?case
  proof (cases "plannable marshal p k")
    case True
    then show ?thesis using Cons [of "acc @ [plannedAction marshal p k]"]
      by (simp only: planActions_step) simp
  next
    case False
    then show ?thesis by (simp only: planActions_step) simp
  qed
qed

lemma Plan_Inr_iff:
  "Plan marshal sc now p = Inr plan \<longleftrightarrow>
     (\<exists>order. TopologicalSort sc (plannerGraph p) = Inr order \<and>
        (\<forall>k \<in> set order. plannable marshal p k) \<and>
        plan = \<lparr>Actions = map (plannedAction marshal p) order, CreatedAt = now,
                PlanGraph = plannerGraph p\<rparr>)"
proof (cases "TopologicalSort sc (plannerGraph p)")
  case (Inl e)
  then show ?thesis by (simp add: Plan_def)
next
  case (Inr order)
  show ?thesis
  proof (cases "planActions marshal p order []")
    case (Inl e)
    with Inr planActions_Inr_iff [of marshal p order "[]"] show ?thesis
      by (auto simp: Plan_def)
  next
    case inr: (Inr actions)
    with Inr planActions_Inr_iff [of marshal p order "[]" actions] show ?thesis
      by (auto simp: Plan_def)
  qed
qed

lemma plannable_node:
  "fmlookup (nodes (plannerGraph p)) rid = Some r \<Longrightarrow>
     plannable marshal p rid \<longleftrightarrow> \<not> driftFails marshal (stateManager p) r"
  by (simp add: plannable_def GetResource_def)

text \<open>
  C6, as the code has it. On a well-formed graph whose required edges all target nodes,
  when \<open>TopologicalSort\<close> succeeds its result holds every node id once. If drift
  detection meets no marshalling error on any node, \<open>Plan\<close> succeeds and emits one
  action per node, in the order of the sort: \<open>Create\<close> (resource not in state) when
  the resource has no state entry, \<open>Update\<close> (configuration drift detected) when it
  has one and \<open>DetectDrift\<close> returns true, \<open>NoOp\<close> (resource up to date)
  otherwise; no action is a \<open>Delete\<close> and every \<open>Changes\<close> is empty. If drift
  detection fails on some node, \<open>Plan\<close> returns an error and no plan.
\<close>

theorem Plan_follows_sort:
  assumes wf: "graph_wf (plannerGraph p)" and vs: "validSched sc (plannerGraph p)"
    and nd: "noDangling (plannerGraph p)"
    and ok: "TopologicalSort sc (plannerGraph p) = Inr order"
  shows "distinct order \<and> set order = fmdom' (nodes (plannerGraph p)) \<and>
     ((\<forall>rid r. fmlookup (nodes (plannerGraph p)) rid = Some r
          \<longrightarrow> \<not> driftFails marshal (stateManager p) r) \<longrightarrow>
        (\<exists>plan. Plan marshal sc now p = Inr plan \<and>
           Actions plan = map (plannedAction marshal p) order \<and>
           map ResourceID (Actions plan) = order \<and>
           (\<forall>a \<in> set (Actions plan). ActType a \<noteq> ActionDelete \<and> Changes a = []))) \<and>
     ((\<exists>rid r. fmlookup (nodes (plannerGraph p)) rid = Some r \<and>
          driftFails marshal (stateManager p) r) \<longrightarrow>
        (\<exists>err. Plan marshal sc now p = Inl err))"
proof -
  let ?g = "plannerGraph p"
  from topo_success [OF wf vs nd ok] have d: "distinct order" and s: "set order = fmdom' (nodes ?g)"
    by simp_all
  from wf have own: "\<And>k r. fmlookup (nodes ?g) k = Some r \<Longrightarrow> ID r = k"
    by (auto simp: graph_wf_def)
  have rid: "ResourceID (plannedAction marshal p k) = k" if "k \<in> fmdom' (nodes ?g)" for k
  proof -
    from that obtain r where r: "fmlookup (nodes ?g) k = Some r" by (auto simp: fmlookup_dom'_iff)
    with own [OF r] show ?thesis
      by (simp add: plannedAction_def GetResource_def expectedAction_def)
  qed
  have shape: "ActType (plannedAction marshal p k) \<noteq> ActionDelete \<and>
      Changes (plannedAction marshal p k) = []" for k
    by (simp add: plannedAction_def expectedAction_def)
  have good: "(\<forall>rid r. fmlookup (nodes ?g) rid = Some r
          \<longrightarrow> \<not> driftFails marshal (stateManager p) r) \<longrightarrow>
        (\<exists>plan. Plan marshal sc now p = Inr plan \<and>
           Actions plan = map (plannedAction marshal p) order \<and>
           map ResourceID (Actions plan) = order \<and>
           (\<forall>a \<in> set (Actions plan). ActType a \<noteq> ActionDelete \<and> Changes a = []))"
  proof
    assume h: "\<forall>rid r. fmlookup (nodes ?g) rid = Some r
          \<longrightarrow> \<not> driftFails marshal (stateManager p) r"
    have all: "\<forall>rid \<in> set order. plannable marshal p rid"
    proof
      fix rid assume "rid \<in> set order"
      with s obtain r where r: "fmlookup (nodes ?g) rid = Some r"
        by (auto simp: fmlookup_dom'_iff)
      with h show "plannable marshal p rid" by (simp add: plannable_node)
    qed
    let ?plan = "\<lparr>Actions = map (plannedAction marshal p) order, CreatedAt = now,
                PlanGraph = ?g\<rparr>"
    have "Plan marshal sc now p = Inr ?plan"
      unfolding Plan_Inr_iff using ok all by auto
    moreover have "map (\<lambda>k. ResourceID (plannedAction marshal p k)) order = order"
      using rid s by (intro map_idI) simp
    then have "map ResourceID (Actions ?plan) = order" by (simp add: comp_def)
    moreover have "\<forall>a \<in> set (Actions ?plan). ActType a \<noteq> ActionDelete \<and> Changes a = []"
      using shape by auto
    ultimately show "\<exists>plan. Plan marshal sc now p = Inr plan \<and>
           Actions plan = map (plannedAction marshal p) order \<and>
           map ResourceID (Actions plan) = order \<and>
           (\<forall>a \<in> set (Actions plan). ActType a \<noteq> ActionDelete \<and> Changes a = [])"
      by (intro exI [of _ ?plan]) simp
  qed
  have bad: "(\<exists>rid r. fmlookup (nodes ?g) rid = Some r \<and>
          driftFails marshal (stateManager p) r) \<longrightarrow>
        (\<exists>err. Plan marshal sc now p = Inl err)"
  proof
    assume "\<exists>rid r. fmlookup (nodes ?g) rid = Some r \<and> driftFails marshal (stateManager p) r"
    then obtain rid r where r: "fmlookup (nodes ?g) rid = Some r"
      and f: "driftFails marshal (stateManager p) r" by blast
    from r s have "rid \<in> set order" by (auto simp: fmlookup_dom'_iff)
    moreover from r f have "\<not> plannable marshal p rid" by (simp add: plannable_node)
    ultimately have "\<not> (\<exists>plan. Plan marshal sc now p = Inr plan)"
      unfolding Plan_Inr_iff using ok by auto
    then show "\<exists>err. Plan marshal sc now p = Inl err"
      by (cases "Plan marshal sc now p") auto
  qed
  from d s good bad show ?thesis by blast
qed

text \<open>
  C7, as the code has it. On a well-formed graph, when a call of \<open>Plan\<close> succeeds, a
  second call on the same graph and state succeeds too and emits the same actions, each
  as often; the two lists are equal when the loop over \<open>inDegree\<close> visits the keys in
  the same order in both calls. Go does not fix that order, and the lists can differ in
  order.
\<close>

theorem Plan_twice_same_actions:
  assumes wf: "graph_wf (plannerGraph p)"
    and v1: "validSched sc1 (plannerGraph p)" and v2: "validSched sc2 (plannerGraph p)"
    and ok: "Plan marshal sc1 t1 p = Inr plan1"
  shows "\<exists>plan2. Plan marshal sc2 t2 p = Inr plan2 \<and>
           mset (Actions plan2) = mset (Actions plan1) \<and>
           (degreeOrder sc2 = degreeOrder sc1 \<longrightarrow> Actions plan2 = Actions plan1)"
proof -
  let ?g = "plannerGraph p"
  from ok obtain order1 where o1: "TopologicalSort sc1 ?g = Inr order1"
    and all1: "\<forall>k \<in> set order1. plannable marshal p k"
    and p1: "Actions plan1 = map (plannedAction marshal p) order1"
    unfolding Plan_Inr_iff by auto
  from topo_schedule_independent [OF wf v1 v2 o1] obtain order2 where
    o2: "TopologicalSort sc2 ?g = Inr order2" and ms: "mset order2 = mset order1" by blast
  from ms have "set order2 = set order1" by (rule mset_eq_setD)
  with all1 have all2: "\<forall>k \<in> set order2. plannable marshal p k" by simp
  let ?plan2 = "\<lparr>Actions = map (plannedAction marshal p) order2, CreatedAt = t2,
                PlanGraph = ?g\<rparr>"
  have r2: "Plan marshal sc2 t2 p = Inr ?plan2"
    unfolding Plan_Inr_iff using o2 all2 by auto
  have "image_mset (plannedAction marshal p) (mset order2)
      = image_mset (plannedAction marshal p) (mset order1)"
    by (simp only: ms)
  then have m: "mset (Actions ?plan2) = mset (Actions plan1)"
    using p1 by simp
  have same: "degreeOrder sc2 = degreeOrder sc1 \<longrightarrow> Actions ?plan2 = Actions plan1"
  proof
    assume e: "degreeOrder sc2 = degreeOrder sc1"
    have "sortResult sc2 ?g = sortResult sc1 ?g"
      unfolding sortResult_def e inDegreeOf_schedule_independent [OF wf v2 v1] ..
    with o1 o2 have "order2 = order1"
      by (auto simp: TopologicalSort_sortResult split: if_splits)
    with p1 show "Actions ?plan2 = Actions plan1" by simp
  qed
  from r2 m same show ?thesis by blast
qed

text \<open>
  C6 as stated fails: the graph has one node, \<open>TopologicalSort\<close> succeeds, the node
  has a state entry with a snapshot, and its configuration holds a value that cannot be
  marshalled. \<open>DetectDrift\<close> returns an error and \<open>Plan\<close> emits no action.
\<close>

theorem Plan_fails_on_unencodable_config:
  "graph_wf unencodableGraph \<and> validSched nginxSched unencodableGraph \<and>
   noDangling unencodableGraph \<and>
   TopologicalSort nginxSched unencodableGraph = Inr [''package:apt:nginx''] \<and>
   Plan encode nginxSched 0 unencodablePlanner
     = Inl (Wrap ''failed to plan resource package:apt:nginx''
             (Wrap ''failed to detect drift''
               (Wrap ''failed to marshal current config'' JSONError)))"
proof -
  have "graph_wf unencodableGraph" by code_simp
  moreover have "validSched nginxSched unencodableGraph" by code_simp
  moreover have "noDangling unencodableGraph" by code_simp
  moreover have "TopologicalSort nginxSched unencodableGraph = Inr [''package:apt:nginx'']"
    by code_simp
  moreover have "Plan encode nginxSched 0 unencodablePlanner
     = Inl (Wrap ''failed to plan resource package:apt:nginx''
             (Wrap ''failed to detect drift''
               (Wrap ''failed to marshal current config'' JSONError)))"
    by code_simp
  ultimately show ?thesis by simp
qed

lemma stack_no_failure:
  "fmlookup (nodes (plannerGraph stackPlanner)) rid = Some r \<Longrightarrow>
     \<not> driftFails encode (stateManager stackPlanner) r"
proof -
  assume "fmlookup (nodes (plannerGraph stackPlanner)) rid = Some r"
  then consider "r = package ''curl'' ''latest''"
    | "r = (package ''nginx'' ''latest'')\<lparr>Dependencies := [requires ''package:apt:redis'']\<rparr>"
    | "r = package ''redis'' ''7.0''"
    by (auto simp: stackPlanner_def stackGraph_def split: if_splits)
  then show ?thesis
  proof cases
    case 1
    have "\<not> driftFails encode (stateManager stackPlanner) (package ''curl'' ''latest'')"
      by code_simp
    with 1 show ?thesis by simp
  next
    case 2
    have "\<not> driftFails encode (stateManager stackPlanner)
        ((package ''nginx'' ''latest'')\<lparr>Dependencies := [requires ''package:apt:redis'']\<rparr>)"
      by code_simp
    with 2 show ?thesis by simp
  next
    case 3
    have "\<not> driftFails encode (stateManager stackPlanner) (package ''redis'' ''7.0'')"
      by code_simp
    with 3 show ?thesis by simp
  qed
qed

theorem Plan_follows_sort_witness:
  "graph_wf (plannerGraph stackPlanner) \<and>
   validSched (stackSched [''package:apt:redis'', ''package:apt:curl'', ''package:apt:nginx''])
     (plannerGraph stackPlanner) \<and>
   noDangling (plannerGraph stackPlanner) \<and>
   TopologicalSort (stackSched [''package:apt:redis'', ''package:apt:curl'', ''package:apt:nginx''])
     (plannerGraph stackPlanner)
     = Inr [''package:apt:curl'', ''package:apt:nginx'', ''package:apt:redis''] \<and>
   (\<exists>plan. Plan encode
        (stackSched [''package:apt:redis'', ''package:apt:curl'', ''package:apt:nginx'']) 5
        stackPlanner = Inr plan \<and>
      Actions plan = map (plannedAction encode stackPlanner)
        [''package:apt:curl'', ''package:apt:nginx'', ''package:apt:redis''] \<and>
      map ResourceID (Actions plan)
        = [''package:apt:curl'', ''package:apt:nginx'', ''package:apt:redis'']) \<and>
   map (plannedAction encode stackPlanner)
        [''package:apt:curl'', ''package:apt:nginx'', ''package:apt:redis'']
     = [emitted ''package:apt:curl'' ActionCreate ''resource not in state'',
        emitted ''package:apt:nginx'' ActionNoOp ''resource up to date'',
        emitted ''package:apt:redis'' ActionUpdate ''configuration drift detected''] \<and>
   fmlookup (nodes (plannerGraph unencodablePlanner)) ''package:apt:nginx'' = Some unencodable \<and>
   driftFails encode (stateManager unencodablePlanner) unencodable \<and>
   (\<exists>err. Plan encode nginxSched 0 unencodablePlanner = Inl err)"
proof -
  let ?sc = "stackSched [''package:apt:redis'', ''package:apt:curl'', ''package:apt:nginx'']"
  have wf: "graph_wf (plannerGraph stackPlanner)" by code_simp
  have vs: "validSched ?sc (plannerGraph stackPlanner)" by code_simp
  have nd: "noDangling (plannerGraph stackPlanner)" by code_simp
  have ok: "TopologicalSort ?sc (plannerGraph stackPlanner)
     = Inr [''package:apt:curl'', ''package:apt:nginx'', ''package:apt:redis'']"
    by code_simp
  have ev: "map (plannedAction encode stackPlanner)
        [''package:apt:curl'', ''package:apt:nginx'', ''package:apt:redis'']
     = [emitted ''package:apt:curl'' ActionCreate ''resource not in state'',
        emitted ''package:apt:nginx'' ActionNoOp ''resource up to date'',
        emitted ''package:apt:redis'' ActionUpdate ''configuration drift detected'']"
    by code_simp
  have all: "\<forall>rid r. fmlookup (nodes (plannerGraph stackPlanner)) rid = Some r
      \<longrightarrow> \<not> driftFails encode (stateManager stackPlanner) r"
    using stack_no_failure by blast
  note t = Plan_follows_sort [OF wf vs nd ok, of encode 5]
  from mp [OF conjunct1 [OF conjunct2 [OF conjunct2 [OF t]]] all]
  have plan: "\<exists>plan. Plan encode ?sc 5 stackPlanner = Inr plan \<and>
      Actions plan = map (plannedAction encode stackPlanner)
        [''package:apt:curl'', ''package:apt:nginx'', ''package:apt:redis''] \<and>
      map ResourceID (Actions plan)
        = [''package:apt:curl'', ''package:apt:nginx'', ''package:apt:redis'']"
    by (elim exE conjE) (intro exI conjI; assumption)
  have uwf: "graph_wf (plannerGraph unencodablePlanner)" by code_simp
  have uvs: "validSched nginxSched (plannerGraph unencodablePlanner)" by code_simp
  have und: "noDangling (plannerGraph unencodablePlanner)" by code_simp
  have uok: "TopologicalSort nginxSched (plannerGraph unencodablePlanner)
      = Inr [''package:apt:nginx'']"
    by code_simp
  have un: "fmlookup (nodes (plannerGraph unencodablePlanner)) ''package:apt:nginx''
      = Some unencodable"
    by code_simp
  have uf: "driftFails encode (stateManager unencodablePlanner) unencodable" by code_simp
  from un uf have ex: "\<exists>rid r. fmlookup (nodes (plannerGraph unencodablePlanner)) rid = Some r \<and>
      driftFails encode (stateManager unencodablePlanner) r"
    by (intro exI conjI)
  note u = Plan_follows_sort [OF uwf uvs und uok, of encode 0]
  from mp [OF conjunct2 [OF conjunct2 [OF conjunct2 [OF u]]] ex]
  have fail: "\<exists>err. Plan encode nginxSched 0 unencodablePlanner = Inl err" .
  from wf vs nd ok plan ev un uf fail show ?thesis by (intro conjI)
qed

text \<open>
  C7 as stated fails: three packages, of which only \<open>nginx\<close> requires \<open>redis\<close>, and
  an empty state. \<open>curl\<close> and \<open>nginx\<close> both start with counter 0; the loop over
  \<open>inDegree\<close> may visit either first, and two calls of \<open>Plan\<close> give the same three
  actions in two orders.
\<close>

theorem Plan_order_follows_map_iteration:
  "graph_wf (plannerGraph freshPlanner) \<and>
   validSched (stackSched [''package:apt:curl'', ''package:apt:nginx'', ''package:apt:redis''])
     (plannerGraph freshPlanner) \<and>
   validSched (stackSched [''package:apt:nginx'', ''package:apt:curl'', ''package:apt:redis''])
     (plannerGraph freshPlanner) \<and>
   (\<exists>plan1 plan2.
      Plan encode (stackSched [''package:apt:curl'', ''package:apt:nginx'', ''package:apt:redis''])
        0 freshPlanner = Inr plan1 \<and>
      Plan encode (stackSched [''package:apt:nginx'', ''package:apt:curl'', ''package:apt:redis''])
        1 freshPlanner = Inr plan2 \<and>
      map ResourceID (Actions plan1)
        = [''package:apt:curl'', ''package:apt:nginx'', ''package:apt:redis''] \<and>
      map ResourceID (Actions plan2)
        = [''package:apt:nginx'', ''package:apt:curl'', ''package:apt:redis''] \<and>
      Actions plan1 \<noteq> Actions plan2)"
proof -
  let ?sc1 = "stackSched [''package:apt:curl'', ''package:apt:nginx'', ''package:apt:redis'']"
  let ?sc2 = "stackSched [''package:apt:nginx'', ''package:apt:curl'', ''package:apt:redis'']"
  let ?a1 = "[emitted ''package:apt:curl'' ActionCreate ''resource not in state'',
        emitted ''package:apt:nginx'' ActionCreate ''resource not in state'',
        emitted ''package:apt:redis'' ActionCreate ''resource not in state'']"
  let ?a2 = "[emitted ''package:apt:nginx'' ActionCreate ''resource not in state'',
        emitted ''package:apt:curl'' ActionCreate ''resource not in state'',
        emitted ''package:apt:redis'' ActionCreate ''resource not in state'']"
  have wf: "graph_wf (plannerGraph freshPlanner)" by code_simp
  have v1: "validSched ?sc1 (plannerGraph freshPlanner)" by code_simp
  have v2: "validSched ?sc2 (plannerGraph freshPlanner)" by code_simp
  have p1: "Plan encode ?sc1 0 freshPlanner
      = Inr \<lparr>Actions = ?a1, CreatedAt = 0, PlanGraph = stackGraph\<rparr>"
    by code_simp
  have p2: "Plan encode ?sc2 1 freshPlanner
      = Inr \<lparr>Actions = ?a2, CreatedAt = 1, PlanGraph = stackGraph\<rparr>"
    by code_simp
  have i1: "map ResourceID ?a1
      = [''package:apt:curl'', ''package:apt:nginx'', ''package:apt:redis'']"
    by (simp add: emitted_def)
  have i2: "map ResourceID ?a2
      = [''package:apt:nginx'', ''package:apt:curl'', ''package:apt:redis'']"
    by (simp add: emitted_def)
  have ne: "?a1 \<noteq> ?a2" by (simp add: emitted_def)
  from wf v1 v2 p1 p2 i1 i2 ne show ?thesis by auto
qed

theorem Plan_twice_same_actions_witness:
  "graph_wf (plannerGraph freshPlanner) \<and>
   validSched (stackSched [''package:apt:curl'', ''package:apt:nginx'', ''package:apt:redis''])
     (plannerGraph freshPlanner) \<and>
   validSched (stackSched [''package:apt:nginx'', ''package:apt:curl'', ''package:apt:redis''])
     (plannerGraph freshPlanner) \<and>
   Plan encode (stackSched [''package:apt:curl'', ''package:apt:nginx'', ''package:apt:redis''])
        0 freshPlanner
     = Inr \<lparr>Actions = [emitted ''package:apt:curl'' ActionCreate ''resource not in state'',
        emitted ''package:apt:nginx'' ActionCreate ''resource not in state'',
        emitted ''package:apt:redis'' ActionCreate ''resource not in state''],
        CreatedAt = 0, PlanGraph = stackGraph\<rparr> \<and>
   (\<exists>plan2.
      Plan encode (stackSched [''package:apt:nginx'', ''package:apt:curl'', ''package:apt:redis''])
        1 freshPlanner = Inr plan2 \<and>
      mset (Actions plan2)
        = mset [emitted ''package:apt:curl'' ActionCreate ''resource not in state'',
        emitted ''package:apt:nginx'' ActionCreate ''resource not in state'',
        emitted ''package:apt:redis'' ActionCreate ''resource not in state''])"
proof -
  let ?sc1 = "stackSched [''package:apt:curl'', ''package:apt:nginx'', ''package:apt:redis'']"
  let ?sc2 = "stackSched [''package:apt:nginx'', ''package:apt:curl'', ''package:apt:redis'']"
  let ?a1 = "[emitted ''package:apt:curl'' ActionCreate ''resource not in state'',
        emitted ''package:apt:nginx'' ActionCreate ''resource not in state'',
        emitted ''package:apt:redis'' ActionCreate ''resource not in state'']"
  have wf: "graph_wf (plannerGraph freshPlanner)" by code_simp
  have v1: "validSched ?sc1 (plannerGraph freshPlanner)" by code_simp
  have v2: "validSched ?sc2 (plannerGraph freshPlanner)" by code_simp
  have p1: "Plan encode ?sc1 0 freshPlanner
      = Inr \<lparr>Actions = ?a1, CreatedAt = 0, PlanGraph = stackGraph\<rparr>"
    by code_simp
  from Plan_twice_same_actions [OF wf v1 v2 p1, of 1]
  have "\<exists>plan2. Plan encode ?sc2 1 freshPlanner = Inr plan2 \<and> mset (Actions plan2) = mset ?a1"
    by auto
  with wf v1 v2 p1 show ?thesis by blast
qed

section \<open>Properties of the executor\<close>

text \<open>
  \<open>Execute\<close> appends an outcome to \<open>result.Actions\<close> only after \<open>executeAction\<close>
  returned a nil error, and such an outcome has no error: no result of \<open>Execute\<close>
  holds a failed outcome, and \<open>GetFailureCount\<close> is 0 on every one of them.
\<close>

lemma settle_no_error:
  "settle marshal resource execAction err w = ((ea, None), w1) \<Longrightarrow> Error ea = Error execAction"
  by (auto simp: settle_def split: option.splits prod.splits)

lemma executeAction_no_error:
  "executeAction marshal tr e action w = ((ea, None), w1) \<Longrightarrow> Error ea = None"
  by (auto simp: executeAction_def Let_def split: prod.splits option.splits ActionType.splits
      dest!: settle_no_error)

lemma executeActions_no_error:
  "executeActions marshal tr e acts result w = ((result1, err), w1) \<Longrightarrow>
     \<forall>a \<in> set (ResultActions result). Error a = None \<Longrightarrow>
     \<forall>a \<in> set (ResultActions result1). Error a = None"
proof (induction acts arbitrary: result w)
  case Nil
  then show ?case by simp
next
  case (Cons act acts)
  obtain ea er w2 where s: "executeAction marshal tr e act w = ((ea, er), w2)"
    by (metis surj_pair)
  show ?case
  proof (cases er)
    case None
    from executeAction_no_error [OF s [unfolded None]] have "Error ea = None" .
    with Cons.prems(2)
    have "\<forall>a \<in> set (ResultActions (result\<lparr>ResultActions := ResultActions result @ [ea]\<rparr>)).
        Error a = None"
      by simp
    moreover from Cons.prems(1) s None
    have "executeActions marshal tr e acts
        (result\<lparr>ResultActions := ResultActions result @ [ea]\<rparr>) w2 = ((result1, err), w1)"
      by simp
    ultimately show ?thesis by (rule Cons.IH [rotated])
  next
    case (Some x)
    with Cons.prems s show ?thesis by (auto simp: timeNow_def)
  qed
qed

lemma Execute_records_no_failure:
  "Execute marshal tr vs e plan w = ((Some result, err), w1) \<Longrightarrow> GetFailureCount result = 0"
proof -
  assume run: "Execute marshal tr vs e plan w = ((Some result, err), w1)"
  let ?r0 = "\<lparr>ResultPlan = plan, ResultStartedAt = clock w,
                         ResultCompletedAt = None, ResultFailedAt = None, Success = False,
                         ResultError = None, ResultActions = []\<rparr>"
  let ?w0 = "w\<lparr>clock := Suc (clock w)\<rparr>"
  obtain r1 e1 w2 where loop: "executeActions marshal tr e (Actions plan) ?r0 ?w0 = ((r1, e1), w2)"
    by (metis surj_pair)
  from executeActions_no_error [OF loop] have ok: "\<forall>a \<in> set (ResultActions r1). Error a = None"
    by simp
  from run loop have "ResultActions result = ResultActions r1"
    by (auto simp: Execute_def Let_def timeNow_def split: option.splits)
  with ok show ?thesis by (simp add: GetFailureCount_def filter_empty_conv)
qed

text \<open>
  C1. A plan of three \<open>Create\<close> actions on a host, a service and a package, nothing
  in the state, every remote operation succeeding; \<open>Apply\<close> of a service resource
  always fails. \<open>Execute\<close> returns a result with \<open>Success = false\<close> and the error
  of the second action; the third resource gets no state entry; the second has the
  entry \<open>Failed\<close> with the error text under \<open>error\<close>, in memory and in the file.
  The result holds one outcome, the success of the first action: the claim says two,
  one success and one failure. \<open>executeAction\<close> builds the failed outcome and returns
  it with the error, and \<open>Execute\<close> returns before it appends it.
\<close>

theorem Execute_drops_failed_outcome:
  "Plan encode siteSched 0
     \<lparr>plannerGraph = siteGraph, stateManager = manager (freshWorld siteGraph)\<rparr> = Inr sitePlan \<and>
   map ResourceID (Actions sitePlan) = [''host:web1'', ''service:nginx'', ''package:apt:curl''] \<and>
   ValidatePlan siteValidateSched sitePlan = None \<and>
   Apply reachable (plainResource ''host:web1'' ''host'' 0 HostKind) = None \<and>
   Apply reachable (plainResource ''service:nginx'' ''service'' 3 ServiceKind)
     = Some ''service management not yet implemented'' \<and>
   snd (fst siteRun)
     = Some (Wrap ''execution failed at action service:nginx''
              (Wrap ''action failed'' (Message ''service management not yet implemented''))) \<and>
   map_option Success (fst (fst siteRun)) = Some False \<and>
   map_option (map (\<lambda>a. (ResourceID (Action a), Error a)) \<circ> ResultActions) (fst (fst siteRun))
     = Some [(''host:web1'', None)] \<and>
   map_option GetSuccessCount (fst (fst siteRun)) = Some 1 \<and>
   map_option GetFailureCount (fst (fst siteRun)) = Some 0 \<and>
   map_option Status (GetState (manager (snd siteRun)) ''host:web1'') = Some StateApplied \<and>
   map_option Status (GetState (manager (snd siteRun)) ''service:nginx'') = Some StateFailed \<and>
   map_option Metadata (GetState (manager (snd siteRun)) ''service:nginx'')
     = Some (fmupd ''error'' (TextValue ''service management not yet implemented'') fmempty) \<and>
   GetState (manager (snd siteRun)) ''package:apt:curl'' = None \<and>
   content (disk (snd siteRun)) = Some (state (manager (snd siteRun)))"
proof -
  have 1: "Plan encode siteSched 0
     \<lparr>plannerGraph = siteGraph, stateManager = manager (freshWorld siteGraph)\<rparr> = Inr sitePlan"
    by code_simp
  have 2: "map ResourceID (Actions sitePlan)
      = [''host:web1'', ''service:nginx'', ''package:apt:curl'']"
    by code_simp
  have 3: "ValidatePlan siteValidateSched sitePlan = None" by code_simp
  have 4: "Apply reachable (plainResource ''host:web1'' ''host'' 0 HostKind) = None" by code_simp
  have 5: "Apply reachable (plainResource ''service:nginx'' ''service'' 3 ServiceKind)
     = Some ''service management not yet implemented''"
    by code_simp
  have 6: "snd (fst siteRun)
     = Some (Wrap ''execution failed at action service:nginx''
              (Wrap ''action failed'' (Message ''service management not yet implemented'')))"
    by code_simp
  have 7: "map_option Success (fst (fst siteRun)) = Some False" by code_simp
  have 8: "map_option (map (\<lambda>a. (ResourceID (Action a), Error a)) \<circ> ResultActions)
      (fst (fst siteRun)) = Some [(''host:web1'', None)]"
    by code_simp
  have 9: "map_option GetSuccessCount (fst (fst siteRun)) = Some 1" by code_simp
  have 10: "map_option GetFailureCount (fst (fst siteRun)) = Some 0" by code_simp
  have 11: "map_option Status (GetState (manager (snd siteRun)) ''host:web1'')
      = Some StateApplied"
    by code_simp
  have 12: "map_option Status (GetState (manager (snd siteRun)) ''service:nginx'')
      = Some StateFailed"
    by code_simp
  have 13: "map_option Metadata (GetState (manager (snd siteRun)) ''service:nginx'')
     = Some (fmupd ''error'' (TextValue ''service management not yet implemented'') fmempty)"
    by code_simp
  have 14: "GetState (manager (snd siteRun)) ''package:apt:curl'' = None" by code_simp
  have 15: "content (disk (snd siteRun)) = Some (state (manager (snd siteRun)))" by code_simp
  from 1 2 3 4 5 6 7 8 9 10 11 12 13 14 15 show ?thesis by (intro conjI)
qed

end
